theory Spec2Isabelle
  imports Main "HOL-Library.Word"
begin

unbundle bit_operations_syntax

section \<open>Soft switches and bitmap pages (applebus/buffers.h, applebus/buffers.c)\<close>

definition SOFTSW_PAGE_2 :: "32 word" where
  "SOFTSW_PAGE_2 = 0x00000008"

definition SOFTSW_80STORE :: "32 word" where
  "SOFTSW_80STORE = 0x00000100"

text \<open>
  \<^verbatim>\<open>hgr_p1 = apple_memory + 0x2000\<close> and \<^verbatim>\<open>hgr_p2 = apple_memory + 0x4000\<close>:
  a pointer into \<^verbatim>\<open>apple_memory\<close> is the index of the byte it points to.
\<close>

definition hgr_p1 :: nat where
  "hgr_p1 = 0x2000"

definition hgr_p2 :: nat where
  "hgr_p2 = 0x4000"

text \<open>
  The globals the renderer reads. \<^verbatim>\<open>apple_memory\<close> is the array as a function of
  the index; \<^verbatim>\<open>mono_rendering\<close> is declared in a header that is not among
  the source files and is taken as an input.
\<close>

record globals =
  soft_switches :: "32 word"
  mono_rendering :: bool
  apple_memory :: "nat \<Rightarrow> 8 word"

section \<open>Hires rendering (dvi/render_hires.c)\<close>

text \<open>\<^verbatim>\<open>#define PAGE2SEL ((soft_switches & (SOFTSW_80STORE | SOFTSW_PAGE_2)) == SOFTSW_PAGE_2)\<close>\<close>

definition PAGE2SEL :: "32 word \<Rightarrow> bool" where
  "PAGE2SEL ss \<longleftrightarrow> ss AND (SOFTSW_80STORE OR SOFTSW_PAGE_2) = SOFTSW_PAGE_2"

text \<open>
  Three lookup tables, one per colour channel, each a function from the index to the
  entry. A channel buffer is the list of the symbols stored through its write pointer.
\<close>

record rgb_tables =
  patterns_red :: "32 word \<Rightarrow> 32 word"
  patterns_green :: "32 word \<Rightarrow> 32 word"
  patterns_blue :: "32 word \<Rightarrow> 32 word"

record scanline =
  tmdsbuf_red :: "32 word list"
  tmdsbuf_green :: "32 word list"
  tmdsbuf_blue :: "32 word list"

text \<open>
  What the generated headers \<^verbatim>\<open>hires_dot_patterns.h\<close> and
  \<^verbatim>\<open>hires_color_patterns_tmds.h\<close> and the TMDS symbol macros supply. None of them is
  among the source files, so they are parameters. A table entry is its value
  zero-extended to 32 bits.
\<close>

record headers =
  hires_dot_patterns :: "32 word \<Rightarrow> 32 word"
  hires_dot_patterns2 :: "32 word \<Rightarrow> 32 word"
  hires_color_patterns :: rgb_tables
  TMDS_SYMBOL_0_0 :: "32 word"
  TMDS_SYMBOL_255_0 :: "32 word"
  TMDS_SYMBOL_0_255 :: "32 word"
  TMDS_SYMBOL_255_255 :: "32 word"

definition hires_mono_patterns_red :: "headers \<Rightarrow> 32 word list" where
  "hires_mono_patterns_red H =
     [TMDS_SYMBOL_0_0 H, TMDS_SYMBOL_0_0 H, TMDS_SYMBOL_0_0 H, TMDS_SYMBOL_0_0 H]"

definition hires_mono_patterns_green :: "headers \<Rightarrow> 32 word list" where
  "hires_mono_patterns_green H =
     [TMDS_SYMBOL_0_0 H, TMDS_SYMBOL_255_0 H, TMDS_SYMBOL_0_255 H, TMDS_SYMBOL_255_255 H]"

definition hires_mono_patterns_blue :: "headers \<Rightarrow> 32 word list" where
  "hires_mono_patterns_blue H =
     [TMDS_SYMBOL_0_0 H, TMDS_SYMBOL_0_0 H, TMDS_SYMBOL_0_0 H, TMDS_SYMBOL_0_0 H]"

definition table_of :: "32 word list \<Rightarrow> 32 word \<Rightarrow> 32 word" where
  "table_of xs i = xs ! unat i"

definition hires_mono_patterns :: "headers \<Rightarrow> rgb_tables" where
  "hires_mono_patterns H =
     \<lparr>patterns_red = table_of (hires_mono_patterns_red H),
      patterns_green = table_of (hires_mono_patterns_green H),
      patterns_blue = table_of (hires_mono_patterns_blue H)\<rparr>"

text \<open>The tables that return the index itself: a run with them records the lookup indices.\<close>

definition index_tables :: rgb_tables where
  "index_tables = \<lparr>patterns_red = (\<lambda>i. i), patterns_green = (\<lambda>i. i), patterns_blue = (\<lambda>i. i)\<rparr>"

definition hires_line_to_mem_offset :: "32 word \<Rightarrow> 32 word" where
  "hires_line_to_mem_offset line =
     push_bit 10 (line AND 0x07) OR push_bit 4 (line AND 0x38) OR (drop_bit 6 (line AND 0xc0) * 40)"

text \<open>The formula of the specification (section 4.1), to compare with the one of the code.\<close>

definition reference_interleave :: "32 word \<Rightarrow> 32 word" where
  "reference_interleave line =
     push_bit 10 (line AND 7) OR push_bit 4 (line AND 0x38) OR (drop_bit 6 line * 40)"

text \<open>\<^verbatim>\<open>line_mem = (p2 ? hgr_p2 : hgr_p1) + hires_line_to_mem_offset(line)\<close>, read at index \<open>i\<close>.\<close>

definition hires_page :: "bool \<Rightarrow> nat" where
  "hires_page p2 = (if p2 then hgr_p2 else hgr_p1)"

definition line_mem_of :: "globals \<Rightarrow> bool \<Rightarrow> 32 word \<Rightarrow> nat \<Rightarrow> 8 word" where
  "line_mem_of G p2 line i =
     apple_memory G (hires_page p2 + unat (hires_line_to_mem_offset line) + i)"

definition empty_scanline :: scanline where
  "empty_scanline = \<lparr>tmdsbuf_red = [], tmdsbuf_green = [], tmdsbuf_blue = []\<rparr>"

text \<open>The three stores \<^verbatim>\<open>*(tmdsbuf_red++) = ..._red[idx]\<close>, green and blue alike.\<close>

definition put_symbols :: "rgb_tables \<Rightarrow> 32 word \<Rightarrow> scanline \<Rightarrow> scanline" where
  "put_symbols T idx buf =
     buf\<lparr>tmdsbuf_red := tmdsbuf_red buf @ [patterns_red T idx],
         tmdsbuf_green := tmdsbuf_green buf @ [patterns_green T idx],
         tmdsbuf_blue := tmdsbuf_blue buf @ [patterns_blue T idx]\<rparr>"

subsection \<open>The monochrome path\<close>

text \<open>
  The locals are \<open>(lastmsb, dotc, dots)\<close> and the scanline being filled.
  \<^verbatim>\<open>uint_fast8_t dotc\<close> is an unsigned int for the firmware's target; the counter
  takes no value above 14. The drain loop \<^verbatim>\<open>while(dotc)\<close> subtracts 2 with wrap-around
  and need not end for every start value, so not returning is the value \<open>None\<close>.
\<close>

text \<open>
  \<^verbatim>\<open>while(dotc) { *(tmdsbuf_red++) = hires_mono_patterns_red[dots&0x3]; ... dots >>= 2; dotc -= 2; }\<close>
\<close>

partial_function (option) mono_consume ::
  "rgb_tables \<Rightarrow> 32 word \<Rightarrow> 32 word \<Rightarrow> scanline \<Rightarrow> (32 word \<times> 32 word \<times> scanline) option"
where [code]:
  "mono_consume T dotc dots buf =
     (if dotc \<noteq> 0
      then mono_consume T (dotc - 2) (drop_bit 2 dots) (put_symbols T (dots AND 0x3) buf)
      else Some (dotc, dots, buf))"

text \<open>
  The body of \<^verbatim>\<open>for(uint i=0; i < 40; i++)\<close>:
  \<^verbatim>\<open>dots |= (hires_dot_patterns2[lastmsb | line_mem[i]]) << dotc;\<close>
  \<^verbatim>\<open>lastmsb = (dotc>0) ? ((line_mem[i] & 0x40)<<2) : 0;\<close>
  \<^verbatim>\<open>dotc += 14;\<close> and the drain loop.
\<close>

fun mono_byte ::
  "(32 word \<Rightarrow> 32 word) \<Rightarrow> rgb_tables \<Rightarrow> (nat \<Rightarrow> 8 word) \<Rightarrow> nat \<Rightarrow>
   32 word \<times> 32 word \<times> 32 word \<times> scanline \<Rightarrow> (32 word \<times> 32 word \<times> 32 word \<times> scanline) option"
where
  "mono_byte mpats T line_mem i (lastmsb, dotc, dots, buf) =
     (let dots1 = dots OR push_bit (unat dotc) (mpats (lastmsb OR ucast (line_mem i)));
          lastmsb1 = (if dotc > 0 then push_bit 2 (ucast (line_mem i) AND 0x40) else 0);
          dotc1 = dotc + 14
      in case mono_consume T dotc1 dots1 buf of
           None \<Rightarrow> None
         | Some (dotc2, dots2, buf2) \<Rightarrow> Some (lastmsb1, dotc2, dots2, buf2))"

text \<open>The loop over a list of indices, and the whole loop from the initial locals.\<close>

definition mono_bytes ::
  "(32 word \<Rightarrow> 32 word) \<Rightarrow> rgb_tables \<Rightarrow> (nat \<Rightarrow> 8 word) \<Rightarrow> nat list \<Rightarrow>
   (32 word \<times> 32 word \<times> 32 word \<times> scanline) option \<Rightarrow> (32 word \<times> 32 word \<times> 32 word \<times> scanline) option"
where
  "mono_bytes mpats T line_mem ixs st =
     fold (\<lambda>i st. case st of None \<Rightarrow> None | Some s \<Rightarrow> mono_byte mpats T line_mem i s) ixs st"

definition mono_scanline ::
  "(32 word \<Rightarrow> 32 word) \<Rightarrow> rgb_tables \<Rightarrow> (nat \<Rightarrow> 8 word) \<Rightarrow>
   (32 word \<times> 32 word \<times> 32 word \<times> scanline) option"
where
  "mono_scanline mpats T line_mem =
     mono_bytes mpats T line_mem [0..<40] (Some (0, 0, 0, empty_scanline))"

subsection \<open>The colour path\<close>

text \<open>The locals are \<open>(oddness, dots)\<close> and the scanline being filled.\<close>

text \<open>
  The body of \<^verbatim>\<open>for(uint j=0; j < 7; j++)\<close>:
  \<^verbatim>\<open>uint dot_pattern = oddness | ((dots >> 24) & 0xff);\<close> the three stores,
  \<^verbatim>\<open>dots <<= 2; oddness ^= 0x100;\<close>
\<close>

fun color_dot :: "rgb_tables \<Rightarrow> 32 word \<times> 32 word \<times> scanline \<Rightarrow> 32 word \<times> 32 word \<times> scanline" where
  "color_dot T (oddness, dots, buf) =
     (let dot_pattern = oddness OR (drop_bit 24 dots AND 0xff)
      in (oddness XOR 0x100, push_bit 2 dots, put_symbols T dot_pattern buf))"

definition color_consume :: "rgb_tables \<Rightarrow> 32 word \<times> 32 word \<times> scanline \<Rightarrow> 32 word \<times> 32 word \<times> scanline" where
  "color_consume T st = fold (\<lambda>j. color_dot T) [0..<7] st"

text \<open>\<^verbatim>\<open>uint b = (i < 40) ? line_mem[i] : 0\<close>\<close>

definition next_byte :: "(nat \<Rightarrow> 8 word) \<Rightarrow> nat \<Rightarrow> 32 word" where
  "next_byte line_mem i = (if i < 40 then ucast (line_mem i) else 0)"

text \<open>\<^verbatim>\<open>if(b & 0x80) dots |= (dots & (1u << 15)) >> 1\<close>\<close>

definition extend_last_bit :: "32 word \<Rightarrow> 32 word \<Rightarrow> 32 word" where
  "extend_last_bit b dots =
     (if b AND 0x80 \<noteq> 0 then dots OR drop_bit 1 (dots AND push_bit 15 1) else dots)"

text \<open>\<^verbatim>\<open>dots |= (uint32_t)hires_dot_patterns[b] << 1\<close>\<close>

definition load_dots :: "(32 word \<Rightarrow> 32 word) \<Rightarrow> 32 word \<Rightarrow> 32 word \<Rightarrow> 32 word" where
  "load_dots pats b dots = dots OR push_bit 1 (pats b)"

text \<open>The body of \<^verbatim>\<open>for(uint i=1; i < 41; i++)\<close>.\<close>

fun color_byte ::
  "(32 word \<Rightarrow> 32 word) \<Rightarrow> rgb_tables \<Rightarrow> (nat \<Rightarrow> 8 word) \<Rightarrow> nat \<Rightarrow>
   32 word \<times> 32 word \<times> scanline \<Rightarrow> 32 word \<times> 32 word \<times> scanline"
where
  "color_byte pats T line_mem i (oddness, dots, buf) =
     (let b = next_byte line_mem i
      in color_consume T (oddness, load_dots pats b (extend_last_bit b dots), buf))"

text \<open>
  \<^verbatim>\<open>uint oddness = 0; uint32_t dots = (uint32_t)hires_dot_patterns[line_mem[0]] << 15;\<close>
  with the scanline still empty.
\<close>

definition color_init :: "(32 word \<Rightarrow> 32 word) \<Rightarrow> (nat \<Rightarrow> 8 word) \<Rightarrow> 32 word \<times> 32 word \<times> scanline" where
  "color_init pats line_mem = (0, push_bit 15 (pats (ucast (line_mem 0))), empty_scanline)"

text \<open>The loop over a list of indices, and the whole loop \<^verbatim>\<open>for(uint i=1; i < 41; i++)\<close>.\<close>

definition color_bytes ::
  "(32 word \<Rightarrow> 32 word) \<Rightarrow> rgb_tables \<Rightarrow> (nat \<Rightarrow> 8 word) \<Rightarrow> nat list \<Rightarrow>
   32 word \<times> 32 word \<times> scanline \<Rightarrow> 32 word \<times> 32 word \<times> scanline"
where
  "color_bytes pats T line_mem ixs st = fold (color_byte pats T line_mem) ixs st"

definition color_scanline ::
  "(32 word \<Rightarrow> 32 word) \<Rightarrow> rgb_tables \<Rightarrow> (nat \<Rightarrow> 8 word) \<Rightarrow> 32 word \<times> 32 word \<times> scanline"
where
  "color_scanline pats T line_mem =
     color_bytes pats T line_mem [1..<41] (color_init pats line_mem)"

subsection \<open>A line and a frame\<close>

text \<open>The result is the scanline handed to \<^verbatim>\<open>dvi_send_scanline\<close>.\<close>

definition render_hires_line :: "headers \<Rightarrow> globals \<Rightarrow> bool \<Rightarrow> 32 word \<Rightarrow> scanline option" where
  "render_hires_line H G p2 line =
     (let line_mem = line_mem_of G p2 line
      in if mono_rendering G
         then (case mono_scanline (hires_dot_patterns2 H) (hires_mono_patterns H) line_mem of
                 None \<Rightarrow> None
               | Some (lastmsb, dotc, dots, buf) \<Rightarrow> Some buf)
         else (case color_scanline (hires_dot_patterns H) (hires_color_patterns H) line_mem of
                 (oddness, dots, buf) \<Rightarrow> Some buf))"

text \<open>
  \<^verbatim>\<open>for(uint line=0; line < n; line++) render_hires_line(PAGE2SEL, line)\<close>: the globals
  are volatile and read again for every line, so \<open>G line\<close> is what the call for that
  line sees. The result is the list of scanlines sent.
\<close>

definition render_lines :: "headers \<Rightarrow> (nat \<Rightarrow> globals) \<Rightarrow> nat \<Rightarrow> scanline list option" where
  "render_lines H G n =
     fold (\<lambda>line sent. case sent of
                         None \<Rightarrow> None
                       | Some ls \<Rightarrow>
                           (case render_hires_line H (G line) (PAGE2SEL (soft_switches (G line))) (of_nat line) of
                              None \<Rightarrow> None
                            | Some l \<Rightarrow> Some (ls @ [l])))
          [0..<n] (Some [])"

definition render_hires :: "headers \<Rightarrow> (nat \<Rightarrow> globals) \<Rightarrow> scanline list option" where
  "render_hires H G = render_lines H G 192"

text \<open>
  \<^verbatim>\<open>render_mixed_hires\<close> renders 160 lines and calls \<^verbatim>\<open>render_mixed_text\<close>, which is not
  among the source files: the scanlines it sends are a parameter.
\<close>

definition render_mixed_hires ::
  "headers \<Rightarrow> (nat \<Rightarrow> globals) \<Rightarrow> scanline list \<Rightarrow> scanline list option"
where
  "render_mixed_hires H G mixed_text =
     (case render_lines H G 160 of None \<Rightarrow> None | Some ls \<Rightarrow> Some (ls @ mixed_text))"

section \<open>The stored configuration (config_load and what it calls)\<close>

text \<open>Flags of \<^verbatim>\<open>internal_flags\<close> and sizes, from applebus/buffers.h.\<close>

definition IFLAGS_DEBUG_LINES :: "32 word" where
  "IFLAGS_DEBUG_LINES = 0x00100000"

definition IFLAGS_FORCED_MONO :: "32 word" where
  "IFLAGS_FORCED_MONO = 0x00400000"

definition IFLAGS_SCANLINEEMU :: "32 word" where
  "IFLAGS_SCANLINEEMU = 0x00800000"

definition IFLAGS_VIDEO7 :: "32 word" where
  "IFLAGS_VIDEO7 = 0x04000000"

definition IFLAGS_TEST :: "32 word" where
  "IFLAGS_TEST = 0x20000000"

definition IFLAGS_IIE_REGS :: "32 word" where
  "IFLAGS_IIE_REGS = 0x40000000"

definition IFLAGS_IIGS_REGS :: "32 word" where
  "IFLAGS_IIGS_REGS = 0x80000000"

definition CHARACTER_ROM_SIZE :: nat where
  "CHARACTER_ROM_SIZE = 2048"

text \<open>
  \<^verbatim>\<open>FLASH_SECTOR_SIZE\<close> comes from the SDK header \<^verbatim>\<open>hardware/flash.h\<close>. The source refuses
  to compile unless it is \<^verbatim>\<open>2*CHARACTER_ROM_SIZE\<close>
  (\<^verbatim>\<open>#if FLASH_SECTOR_SIZE != 2*CHARACTER_ROM_SIZE #error\<close>), which fixes its value.
\<close>

definition FLASH_SECTOR_SIZE :: "32 word" where
  "FLASH_SECTOR_SIZE = 4096"

definition CFG_MAGIC_WORD_VALUE :: "32 word" where
  "CFG_MAGIC_WORD_VALUE = 0x32495644"

definition FONT_MAGIC_WORD_VALUE :: "32 word" where
  "FONT_MAGIC_WORD_VALUE = 0x544e4f46"

text \<open>
  What \<^verbatim>\<open>config.h\<close>, \<^verbatim>\<open>fonts/textfont.h\<close> and \<^verbatim>\<open>util/dmacopy.h\<close> declare is not among the
  source files and is a parameter: the enumerators of \<^verbatim>\<open>compat_t\<close> (as unsigned
  32-bit values), the default settings, the font counts, the font ROMs, and
  \<^verbatim>\<open>memcpy32\<close>, taken as a function of the destination array, the offset into it, the
  source array, the offset into it and the byte count, that returns the destination
  array after the call.
\<close>

record config_h =
  MACHINE_AUTO :: "32 word"
  MACHINE_II :: "32 word"
  MACHINE_IIE :: "32 word"
  MACHINE_IIGS :: "32 word"
  MACHINE_AGAT7 :: "32 word"
  MACHINE_AGAT9 :: "32 word"
  MACHINE_BASIS :: "32 word"
  MACHINE_PRAVETZ :: "32 word"
  MACHINE_MAX_CFG :: "32 word"
  COLOR_MODE_BW :: "8 word"
  DEFAULT_LOCAL_CHARSET :: "8 word"
  DEFAULT_ALT_CHARSET :: "8 word"
  MAX_FONT_COUNT :: "32 word"
  CUSTOM_FONT_COUNT :: "32 word"
  character_roms :: "nat \<Rightarrow> 8 word list"
  memcpy32 :: "8 word list \<Rightarrow> nat \<Rightarrow> 8 word list \<Rightarrow> nat \<Rightarrow> nat \<Rightarrow> 8 word list"

text \<open>\<^verbatim>\<open>struct config_t\<close>, the structure stored in flash (\<^verbatim>\<open>size\<close> is \<open>size_cfg\<close> here).\<close>

record config_t =
  magic_word :: "32 word"
  size_cfg :: "16 word"
  scanline_emulation :: "8 word"
  forced_monochrome :: "8 word"
  color_mode :: "8 word"
  machine_type :: "8 word"
  local_charset :: "8 word"
  alt_charset :: "8 word"
  language_switch_enabled :: "8 word"
  enhanced_font_enabled :: "8 word"
  video7_enabled :: "8 word"
  debug_lines_enabled :: "8 word"
  test_mode_enabled :: "8 word"

text \<open>\<^verbatim>\<open>struct fontdir_t\<close>\<close>

record fontdir_t =
  magic_word :: "32 word"
  invalid_fonts :: "32 word"

text \<open>
  The global variables \<^verbatim>\<open>config_load\<close> reads and writes. Some have the name of a field
  of \<^verbatim>\<open>config_t\<close> or \<^verbatim>\<open>fontdir_t\<close>; a field of a structure is written with the name of
  the structure, as in \<open>config_t.color_mode cfg\<close> for \<^verbatim>\<open>cfg->color_mode\<close>.
\<close>

record config_globals =
  internal_flags :: "32 word"
  detected_machine :: "32 word"
  cfg_machine :: "32 word"
  current_machine :: "32 word"
  language_switch_enabled :: bool
  enhanced_font_enabled :: bool
  cfg_local_charset :: "8 word"
  cfg_alt_charset :: "8 word"
  reload_charsets :: "8 word"
  invalid_fonts :: "32 word"
  color_mode :: "8 word"
  character_rom :: "8 word list"

text \<open>\<^verbatim>\<open>#define SET_IFLAG(condition, FLAGS) { if (condition) internal_flags |= FLAGS;else internal_flags &= ~FLAGS; }\<close>\<close>

definition SET_IFLAG :: "bool \<Rightarrow> 32 word \<Rightarrow> config_globals \<Rightarrow> config_globals" where
  "SET_IFLAG condition FLAGS g =
     (if condition then g\<lparr>internal_flags := internal_flags g OR FLAGS\<rparr>
      else g\<lparr>internal_flags := internal_flags g AND NOT FLAGS\<rparr>)"

definition set_machine :: "config_h \<Rightarrow> 32 word \<Rightarrow> config_globals \<Rightarrow> config_globals" where
  "set_machine h machine g =
     (let g1 =
        (if machine = MACHINE_AUTO h \<or> machine = MACHINE_AGAT7 h \<or> machine = MACHINE_AGAT9 h \<or>
            machine = MACHINE_BASIS h \<or> machine = MACHINE_PRAVETZ h \<or> machine = MACHINE_II h
         then g\<lparr>internal_flags := internal_flags g AND NOT (IFLAGS_IIGS_REGS OR IFLAGS_IIE_REGS)\<rparr>
         else if machine = MACHINE_IIE h
         then g\<lparr>internal_flags := (internal_flags g AND NOT IFLAGS_IIGS_REGS) OR IFLAGS_IIE_REGS\<rparr>
         else if machine = MACHINE_IIGS h
         then g\<lparr>internal_flags := (internal_flags g AND NOT IFLAGS_IIE_REGS) OR IFLAGS_IIGS_REGS\<rparr>
         else g)
      in g1\<lparr>current_machine := machine\<rparr>)"

text \<open>
  \<^verbatim>\<open>1 << custom_font\<close> is a shift of an int by an 8-bit count; C leaves it undefined from
  32 on, where \<open>push_bit\<close> gives 0.
\<close>

definition check_valid_font :: "config_h \<Rightarrow> config_globals \<Rightarrow> 32 word \<Rightarrow> 8 word" where
  "check_valid_font h g font_nr =
     (if font_nr < MAX_FONT_COUNT h - CUSTOM_FONT_COUNT h then ucast font_nr
      else let custom_font = (ucast (font_nr - (MAX_FONT_COUNT h - CUSTOM_FONT_COUNT h)) :: 8 word)
           in if config_globals.invalid_fonts g AND push_bit (unat custom_font) 1 = 0
              then ucast font_nr
              else DEFAULT_LOCAL_CHARSET h)"

definition config_load_charsets :: "config_h \<Rightarrow> config_globals \<Rightarrow> config_globals" where
  "config_load_charsets h g =
     (let g1 =
        (if reload_charsets g AND 1 \<noteq> 0
         then let rom = memcpy32 h (character_rom g) 0
                          (character_roms h (unat (check_valid_font h g (ucast (cfg_local_charset g)))))
                          0 CHARACTER_ROM_SIZE
              in g\<lparr>character_rom :=
                     (if \<not> config_globals.enhanced_font_enabled g
                      then memcpy32 h rom (0x40 * 8) rom 0 (0x20 * 8)
                      else rom)\<rparr>
         else g);
          g2 =
        (if reload_charsets g1 AND 2 \<noteq> 0
         then let rom = memcpy32 h (character_rom g1) 0x800
                          (character_roms h (unat (check_valid_font h g1 (ucast (cfg_alt_charset g1)))))
                          0 CHARACTER_ROM_SIZE
              in g1\<lparr>character_rom :=
                      (if \<not> config_globals.enhanced_font_enabled g1
                       then memcpy32 h rom (0x800 + 0x40 * 8) rom 0x800 (0x20 * 8)
                       else rom)\<rparr>
         else g1)
      in g2\<lparr>reload_charsets := 0\<rparr>)"

definition config_load_defaults :: "config_h \<Rightarrow> config_globals \<Rightarrow> config_globals" where
  "config_load_defaults h g =
     (let g1 = SET_IFLAG True IFLAGS_SCANLINEEMU g;
          g2 = SET_IFLAG False IFLAGS_DEBUG_LINES g1;
          g3 = SET_IFLAG False IFLAGS_FORCED_MONO g2;
          g4 = SET_IFLAG False IFLAGS_VIDEO7 g3;
          g5 = SET_IFLAG False IFLAGS_TEST g4;
          g6 = g5\<lparr>color_mode := COLOR_MODE_BW h, cfg_machine := MACHINE_AUTO h\<rparr>;
          g7 = set_machine h (detected_machine g6) g6
      in g7\<lparr>language_switch_enabled := False,
            enhanced_font_enabled := True,
            cfg_local_charset := DEFAULT_LOCAL_CHARSET h,
            cfg_alt_charset := DEFAULT_ALT_CHARSET h,
            reload_charsets := 3\<rparr>)"

text \<open>
  \<open>cfg\<close> and \<open>font_directory\<close> are the two structures in flash. The blocks under
  \<^verbatim>\<open>#ifdef APPLE_MODEL_IIPLUS\<close> are left out.
\<close>

definition config_load :: "config_h \<Rightarrow> config_t \<Rightarrow> fontdir_t \<Rightarrow> config_globals \<Rightarrow> config_globals" where
  "config_load h cfg font_directory g =
     (let g0 =
        (if fontdir_t.magic_word font_directory = FONT_MAGIC_WORD_VALUE
         then g\<lparr>invalid_fonts := fontdir_t.invalid_fonts font_directory\<rparr>
         else g)
      in if config_t.magic_word cfg \<noteq> CFG_MAGIC_WORD_VALUE \<or> ucast (size_cfg cfg) > FLASH_SECTOR_SIZE
         then config_load_defaults h g0
         else
           let g1 = g0\<lparr>cfg_machine :=
                        (if ucast (machine_type cfg) \<le> MACHINE_MAX_CFG h
                         then ucast (machine_type cfg) else MACHINE_AUTO h)\<rparr>;
               g2 = set_machine h (cfg_machine g1) g1;
               g3 = SET_IFLAG (scanline_emulation cfg \<noteq> 0) IFLAGS_SCANLINEEMU g2;
               g4 = SET_IFLAG (forced_monochrome cfg \<noteq> 0) IFLAGS_FORCED_MONO g3;
               g5 = SET_IFLAG (video7_enabled cfg \<noteq> 0) IFLAGS_VIDEO7 g4;
               g6 = SET_IFLAG (debug_lines_enabled cfg \<noteq> 0) IFLAGS_DEBUG_LINES g5;
               g7 = SET_IFLAG (test_mode_enabled cfg \<noteq> 0) IFLAGS_TEST g6;
               g8 = g7\<lparr>language_switch_enabled := (config_t.language_switch_enabled cfg \<noteq> 0),
                         enhanced_font_enabled := (config_t.enhanced_font_enabled cfg \<noteq> 0),
                         color_mode := (if config_t.color_mode cfg \<le> 2 then config_t.color_mode cfg else 0)\<rparr>;
               g9 = g8\<lparr>cfg_local_charset :=
                        (if ucast (local_charset cfg) \<ge> MAX_FONT_COUNT h then 0 else local_charset cfg)\<rparr>;
               g10 = g9\<lparr>cfg_alt_charset :=
                        (if ucast (alt_charset cfg) \<ge> MAX_FONT_COUNT h then 0 else alt_charset cfg)\<rparr>;
               g11 = g10\<lparr>reload_charsets := 3\<rparr>
           in config_load_charsets h g11)"

section \<open>Proof devices\<close>

definition map_scanline :: "rgb_tables \<Rightarrow> scanline \<Rightarrow> scanline" where
  "map_scanline T buf =
     \<lparr>tmdsbuf_red = map (patterns_red T) (tmdsbuf_red buf),
      tmdsbuf_green = map (patterns_green T) (tmdsbuf_green buf),
      tmdsbuf_blue = map (patterns_blue T) (tmdsbuf_blue buf)\<rparr>"

definition color_indices :: "(32 word \<Rightarrow> 32 word) \<Rightarrow> (nat \<Rightarrow> 8 word) \<Rightarrow> 32 word list" where
  "color_indices pats line_mem =
     tmdsbuf_red (snd (snd (color_scanline pats index_tables line_mem)))"

definition oddness_at :: "nat \<Rightarrow> 32 word" where
  "oddness_at k = (if even k then 0 else 0x100)"

fun color_inv :: "32 word \<times> 32 word \<times> scanline \<Rightarrow> bool" where
  "color_inv (od, d, b) \<longleftrightarrow>
     tmdsbuf_green b = tmdsbuf_red b \<and> tmdsbuf_blue b = tmdsbuf_red b \<and>
     od = oddness_at (length (tmdsbuf_red b)) \<and>
     (\<forall>k < length (tmdsbuf_red b).
        tmdsbuf_red b ! k AND 0x100 = oddness_at k \<and> tmdsbuf_red b ! k < 512)"

fun low15_clear :: "32 word \<times> 32 word \<times> scanline \<Rightarrow> bool" where
  "low15_clear (od, d, b) \<longleftrightarrow> (\<forall>n < 15. \<not> bit d n)"

fun symbols_emitted :: "nat \<Rightarrow> 32 word \<times> 32 word \<times> scanline \<Rightarrow> bool" where
  "symbols_emitted n (od, d, b) \<longleftrightarrow>
     length (tmdsbuf_red b) = n \<and> length (tmdsbuf_green b) = n \<and> length (tmdsbuf_blue b) = n"

fun mono_drain :: "nat \<Rightarrow> rgb_tables \<Rightarrow> 32 word \<Rightarrow> scanline \<Rightarrow> 32 word \<times> scanline" where
  "mono_drain 0 T dots buf = (dots, buf)"
| "mono_drain (Suc n) T dots buf =
     mono_drain n T (drop_bit 2 dots) (put_symbols T (dots AND 0x3) buf)"

fun mono_idle :: "nat \<Rightarrow> (32 word \<times> 32 word \<times> 32 word \<times> scanline) option \<Rightarrow> bool" where
  "mono_idle n None \<longleftrightarrow> False"
| "mono_idle n (Some (lastmsb, dotc, dots, buf)) \<longleftrightarrow>
     lastmsb = 0 \<and> dotc = 0 \<and>
     length (tmdsbuf_red buf) = n \<and> length (tmdsbuf_green buf) = n \<and> length (tmdsbuf_blue buf) = n"

fun mono_inv :: "(32 word \<times> 32 word \<times> 32 word \<times> scanline) option \<Rightarrow> bool" where
  "mono_inv None \<longleftrightarrow> False"
| "mono_inv (Some (lastmsb, dotc, dots, buf)) \<longleftrightarrow>
     tmdsbuf_green buf = tmdsbuf_red buf \<and> tmdsbuf_blue buf = tmdsbuf_red buf \<and>
     (\<forall>k < length (tmdsbuf_red buf). tmdsbuf_red buf ! k < 4)"

fun mono_flushed :: "(32 word \<times> 32 word \<times> 32 word \<times> scanline) option \<Rightarrow> bool" where
  "mono_flushed None \<longleftrightarrow> False"
| "mono_flushed (Some (lastmsb, dotc, dots, buf)) \<longleftrightarrow> dots = 0"

definition mono_indices :: "(32 word \<Rightarrow> 32 word) \<Rightarrow> (nat \<Rightarrow> 8 word) \<Rightarrow> 32 word list" where
  "mono_indices mpats line_mem =
     (case mono_scanline mpats index_tables line_mem of
        None \<Rightarrow> []
      | Some (lastmsb, dotc, dots, buf) \<Rightarrow> tmdsbuf_red buf)"

section \<open>Lemmas\<close>

lemma word_lt_2p_bitI:
  fixes w :: "'a::len word"
  assumes "\<And>m. bit w m \<Longrightarrow> m < n" and "n < LENGTH('a)"
  shows "w < 2 ^ n"
proof -
  have "w AND mask n = w"
    by (rule bit_word_eqI) (auto simp: bit_and_iff bit_mask_iff dest: assms(1))
  moreover have "w AND mask n < 2 ^ n"
    using assms(2) by (simp add: and_mask_less_size word_size)
  ultimately show ?thesis by simp
qed

lemma word_lt_2p_bitD:
  fixes w :: "'a::len word"
  assumes "w < 2 ^ n" and "bit w m"
  shows "m < n"
proof -
  have "w AND mask n = w" using assms(1) by (rule less_mask_eq)
  then have "bit (w AND mask n) m" using assms(2) by simp
  then show ?thesis by (simp add: bit_and_iff bit_mask_iff)
qed

lemma word_or_lt_2p:
  fixes a b :: "'a::len word"
  assumes "a < 2 ^ n" "b < 2 ^ n" "n < LENGTH('a)"
  shows "a OR b < 2 ^ n"
  by (rule word_lt_2p_bitI) (auto simp: bit_or_iff assms(3) dest: word_lt_2p_bitD [OF assms(1)] word_lt_2p_bitD [OF assms(2)])

lemma mask3_numeral: "(7::32 word) = mask 3" by (simp add: mask_eq_exp_minus_1)

lemma mask3_shifted: "(0x38::32 word) = push_bit 3 (mask 3)" by (simp add: mask_eq_exp_minus_1)

lemma mask2_shifted: "(0xc0::32 word) = push_bit 6 (mask 2)" by (simp add: mask_eq_exp_minus_1)

lemma mask8_numeral: "(0xff::32 word) = mask 8" by (simp add: mask_eq_exp_minus_1)

lemma bit_int_0x100: "bit (0x100::int) n \<longleftrightarrow> n = 8"
  using bit_exp_iff [where ?'a = int, of 8 n] by auto

lemma bit_int_0x80: "bit (0x80::int) n \<longleftrightarrow> n = 7"
  using bit_exp_iff [where ?'a = int, of 7 n] by auto

lemma bit_int_0x8000: "bit (0x8000::int) n \<longleftrightarrow> n = 15"
  using bit_exp_iff [where ?'a = int, of 15 n] by auto

lemma bit_int_0x4000: "bit (0x4000::int) n \<longleftrightarrow> n = 14"
  using bit_exp_iff [where ?'a = int, of 14 n] by auto

lemmas bit_consts = bit_int_0x100 bit_int_0x80 bit_int_0x8000 bit_int_0x4000

lemma offset_hi_lt: "push_bit 10 (line AND 7) < (2 ^ 13 :: 32 word)"
  by (rule word_lt_2p_bitI) (auto simp: mask3_numeral bit_simps)

lemma offset_mid_lt: "push_bit 4 (line AND 0x38) < (2 ^ 13 :: 32 word)"
  by (rule word_lt_2p_bitI) (auto simp: mask3_shifted bit_simps)

lemma offset_third_bits:
  "drop_bit 6 (line AND 0xc0) = of_bool (bit line 6) OR push_bit 1 (of_bool (bit line 7))"
  for line :: "32 word"
  by (rule bit_word_eqI) (auto simp: mask2_shifted bit_simps dest!: less_2_cases)

lemma offset_lo_lt: "drop_bit 6 (line AND 0xc0) * 40 < (2 ^ 13 :: 32 word)"
  unfolding offset_third_bits by (cases "bit line 6"; cases "bit line 7") simp_all

lemma offset_third_8bit: "line < 256 \<Longrightarrow> drop_bit 6 (line AND 0xc0) = drop_bit 6 line"
  for line :: "32 word"
  by (rule bit_word_eqI)
     (auto simp: mask2_shifted bit_simps dest: word_lt_2p_bitD [where n = 8 and w = line, simplified])

lemma hires_line_to_mem_offset_lt: "hires_line_to_mem_offset line < 8192"
  unfolding hires_line_to_mem_offset_def
  using word_or_lt_2p [OF offset_hi_lt [of line] word_or_lt_2p [OF offset_mid_lt [of line] offset_lo_lt [of line]]]
  by simp

lemma dot_pattern_even: "(x AND 0xff) AND 0x100 = (0::32 word)"
  unfolding mask8_numeral by (rule bit_word_eqI) (auto simp: bit_simps bit_consts)

lemma dot_pattern_odd: "(0x100 OR (x AND 0xff)) AND 0x100 = (0x100::32 word)"
  unfolding mask8_numeral by (rule bit_word_eqI) (auto simp: bit_simps bit_consts)

lemma low8_lt: "x AND 0xff < (2 ^ 9 :: 32 word)"
  unfolding mask8_numeral by (rule word_lt_2p_bitI) (auto simp: bit_simps)

lemma dot_pattern_lt: "od = 0 \<or> od = 0x100 \<Longrightarrow> od OR (x AND 0xff) < (512::32 word)"
proof -
  assume "od = 0 \<or> od = 0x100"
  then have "od < 2 ^ 9" by auto
  from word_or_lt_2p [OF this low8_lt [of x]] show ?thesis by simp
qed

lemma mono_index_lt: "x AND 0x3 < (4::32 word)"
proof -
  have "x AND mask 2 < (2 ^ 2 :: 32 word)"
    by (rule word_lt_2p_bitI) (auto simp: bit_simps)
  then show ?thesis by (simp add: mask_eq_exp_minus_1)
qed

lemma and_0x80_iff: "b AND 0x80 \<noteq> 0 \<longleftrightarrow> bit b 7" for b :: "32 word"
proof -
  have "b AND 0x80 = 0 \<longleftrightarrow> \<not> bit b 7"
  proof
    assume "b AND 0x80 = 0"
    then have "\<not> bit (b AND 0x80) 7" by simp
    then show "\<not> bit b 7" by (simp add: bit_and_iff bit_consts)
  next
    assume "\<not> bit b 7"
    then show "b AND 0x80 = 0"
      by (intro bit_word_eqI) (auto simp: bit_and_iff bit_consts)
  qed
  then show ?thesis by simp
qed

lemma bit_extend_last_bit:
  "bit (extend_last_bit b d) n \<longleftrightarrow> bit d n \<or> (n = 14 \<and> bit b 7 \<and> bit d 15)"
proof -
  have c: "push_bit 15 (1::32 word) = 0x8000" by simp
  have "bit (drop_bit 1 (d AND 0x8000)) n \<longleftrightarrow> n = 14 \<and> bit d 15"
    unfolding bit_drop_bit_eq by (auto simp add: bit_and_iff bit_consts)
  then have "bit (d OR drop_bit 1 (d AND 0x8000)) n \<longleftrightarrow> bit d n \<or> (n = 14 \<and> bit d 15)"
    unfolding bit_or_iff by simp
  then show ?thesis
    unfolding extend_last_bit_def and_0x80_iff c by auto
qed

lemma bit_load_dots:
  "bit (load_dots pats b d) n \<longleftrightarrow> bit d n \<or> (0 < n \<and> n < 32 \<and> bit (pats b) (n - 1))"
  unfolding load_dots_def bit_or_iff bit_push_bit_iff by auto

lemma bit_window_shift:
  "bit (push_bit 14 w) n \<longleftrightarrow> 14 \<le> n \<and> n < 32 \<and> bit w (n - 14)" for w :: "32 word"
  unfolding bit_push_bit_iff by auto

lemma put_symbols_map:
  "put_symbols T idx (map_scanline T buf) = map_scanline T (put_symbols index_tables idx buf)"
  by (simp add: put_symbols_def map_scanline_def index_tables_def)

lemma empty_scanline_map: "map_scanline T empty_scanline = empty_scanline"
  by (simp add: map_scanline_def empty_scanline_def)

lemma color_dot_map:
  "color_dot index_tables (od, d, b) = (od', d', b') \<Longrightarrow>
   color_dot T (od, d, map_scanline T b) = (od', d', map_scanline T b')"
  by (auto simp: Let_def put_symbols_map)

lemma color_dots_map:
  "fold (\<lambda>j. color_dot index_tables) js (od, d, b) = (od', d', b') \<Longrightarrow>
   fold (\<lambda>j. color_dot T) js (od, d, map_scanline T b) = (od', d', map_scanline T b')"
proof (induction js arbitrary: od d b)
  case Nil
  then show ?case by simp
next
  case (Cons j js)
  obtain od1 d1 b1 where s: "color_dot index_tables (od, d, b) = (od1, d1, b1)"
    by (cases "color_dot index_tables (od, d, b)")
  from Cons.prems s have "fold (\<lambda>j. color_dot index_tables) js (od1, d1, b1) = (od', d', b')"
    by simp
  from Cons.IH [OF this] color_dot_map [OF s, of T] show ?case
    by simp
qed

lemma color_byte_map:
  "color_byte pats index_tables lm i (od, d, b) = (od', d', b') \<Longrightarrow>
   color_byte pats T lm i (od, d, map_scanline T b) = (od', d', map_scanline T b')"
  by (simp add: color_consume_def Let_def color_dots_map)

lemma color_bytes_map:
  "color_bytes pats index_tables lm ixs (od, d, b) = (od', d', b') \<Longrightarrow>
   color_bytes pats T lm ixs (od, d, map_scanline T b) = (od', d', map_scanline T b')"
proof (induction ixs arbitrary: od d b)
  case Nil
  then show ?case by (simp add: color_bytes_def)
next
  case (Cons i ixs)
  obtain od1 d1 b1 where s: "color_byte pats index_tables lm i (od, d, b) = (od1, d1, b1)"
    by (cases "color_byte pats index_tables lm i (od, d, b)")
  from Cons.prems s have "color_bytes pats index_tables lm ixs (od1, d1, b1) = (od', d', b')"
    by (simp add: color_bytes_def)
  from Cons.IH [OF this] color_byte_map [OF s, of T] show ?case
    by (simp add: color_bytes_def)
qed

lemma color_scanline_map:
  "color_scanline pats index_tables lm = (od, d, b) \<Longrightarrow>
   color_scanline pats T lm = (od, d, map_scanline T b)"
  unfolding color_scanline_def color_init_def
  using color_bytes_map [of pats lm "[1..<41]" 0 _ empty_scanline od d b T]
  by (simp add: empty_scanline_map)

lemma oddness_at_idx: "(oddness_at k OR (x AND 0xff)) AND 0x100 = oddness_at k"
  by (simp add: oddness_at_def dot_pattern_even dot_pattern_odd)

lemma oddness_at_lt: "oddness_at k OR (x AND 0xff) < 512"
  by (rule dot_pattern_lt) (simp add: oddness_at_def)

lemma oddness_at_Suc: "oddness_at k XOR 0x100 = oddness_at (Suc k)"
  by (simp add: oddness_at_def)

lemma color_dot_inv: "color_inv st \<Longrightarrow> color_inv (color_dot index_tables st)"
  by (cases st)
     (auto simp: Let_def put_symbols_def index_tables_def nth_append oddness_at_idx
        oddness_at_lt oddness_at_Suc less_Suc_eq)

lemma color_dots_inv: "color_inv st \<Longrightarrow> color_inv (fold (\<lambda>j. color_dot index_tables) js st)"
  by (induction js arbitrary: st) (simp_all add: color_dot_inv)

lemma color_byte_inv: "color_inv st \<Longrightarrow> color_inv (color_byte pats index_tables lm i st)"
proof (cases st)
  case (fields od d b)
  assume "color_inv st"
  then have "color_inv (od, load_dots pats (next_byte lm i) (extend_last_bit (next_byte lm i) d), b)"
    using fields by simp
  then show ?thesis
    using fields by (simp add: color_consume_def color_dots_inv Let_def)
qed

lemma color_bytes_inv: "color_inv st \<Longrightarrow> color_inv (color_bytes pats index_tables lm ixs st)"
  unfolding color_bytes_def by (induction ixs arbitrary: st) (simp_all add: color_byte_inv)

lemma color_init_inv: "color_inv (color_init pats lm)"
  by (simp add: color_init_def empty_scanline_def oddness_at_def)

lemma color_dot_emitted: "symbols_emitted n st \<Longrightarrow> symbols_emitted (Suc n) (color_dot T st)"
  by (cases st) (simp add: Let_def put_symbols_def)

lemma color_dots_emitted:
  "symbols_emitted n st \<Longrightarrow> symbols_emitted (n + length js) (fold (\<lambda>j. color_dot T) js st)"
proof (induction js arbitrary: n st)
  case Nil
  then show ?case by simp
next
  case (Cons j js)
  from Cons.IH [OF color_dot_emitted [OF Cons.prems]] show ?case by simp
qed

lemma color_byte_emitted:
  "symbols_emitted n st \<Longrightarrow> symbols_emitted (n + 7) (color_byte pats T lm i st)"
proof (cases st)
  case (fields od d b)
  assume "symbols_emitted n st"
  then have "symbols_emitted n (od, load_dots pats (next_byte lm i) (extend_last_bit (next_byte lm i) d), b)"
    using fields by simp
  from color_dots_emitted [OF this, of "[0..<7]" T] show ?thesis
    using fields by (simp add: color_consume_def Let_def)
qed

lemma color_bytes_emitted:
  "symbols_emitted n st \<Longrightarrow> symbols_emitted (n + 7 * length ixs) (color_bytes pats T lm ixs st)"
proof (induction ixs arbitrary: n st)
  case Nil
  then show ?case by (simp add: color_bytes_def)
next
  case (Cons i ixs)
  from Cons.IH [OF color_byte_emitted [OF Cons.prems]] show ?case
    by (simp add: color_bytes_def add.assoc)
qed

lemma color_init_emitted: "symbols_emitted 0 (color_init pats lm)"
  by (simp add: color_init_def empty_scanline_def)

lemma color_scanline_emitted: "symbols_emitted 280 (color_scanline pats T lm)"
  using color_bytes_emitted [OF color_init_emitted, of "[1..<41]" pats T lm]
  by (simp add: color_scanline_def)

lemma color_dots_window:
  "fst (snd (fold (\<lambda>j. color_dot T) js (od, d, b))) = push_bit (2 * length js) d"
proof (induction js arbitrary: od d b)
  case Nil
  then show ?case by simp
next
  case (Cons j js)
  then show ?case by (simp add: Let_def push_bit_add add.commute)
qed

lemma color_byte_window:
  "fst (snd (color_byte pats T lm i (od, d, b))) =
     push_bit 14 (load_dots pats (next_byte lm i) (extend_last_bit (next_byte lm i) d))"
  using color_dots_window [of T "[0..<7]"] by (simp add: color_consume_def Let_def)

lemma window_low15:
  "\<not> bit d 0 \<Longrightarrow> n < 15 \<Longrightarrow> \<not> bit (push_bit 14 (load_dots pats b (extend_last_bit b d))) n"
  unfolding bit_window_shift bit_load_dots bit_extend_last_bit by auto

lemma color_byte_low15: "low15_clear st \<Longrightarrow> low15_clear (color_byte pats T lm i st)"
proof (cases st)
  case (fields od d b)
  assume "low15_clear st"
  then have d0: "\<not> bit d 0" using fields by simp
  obtain od' d' b' where r: "color_byte pats T lm i (od, d, b) = (od', d', b')"
    by (cases "color_byte pats T lm i (od, d, b)")
  have "d' = push_bit 14 (load_dots pats (next_byte lm i) (extend_last_bit (next_byte lm i) d))"
    using color_byte_window [of pats T lm i od d b] r by simp
  then have "\<forall>n < 15. \<not> bit d' n"
    using window_low15 [OF d0] by simp
  then show ?thesis using fields r by simp
qed

lemma color_bytes_low15: "low15_clear st \<Longrightarrow> low15_clear (color_bytes pats T lm ixs st)"
  unfolding color_bytes_def by (induction ixs arbitrary: st) (simp_all add: color_byte_low15)

lemma color_init_low15: "low15_clear (color_init pats lm)"
  by (simp add: color_init_def bit_simps)

lemma mono_consume_drain:
  "n < 2 ^ 31 \<Longrightarrow>
   mono_consume T (of_nat (2 * n)) dots buf =
     (case mono_drain n T dots buf of (d, b) \<Rightarrow> Some (0, d, b))"
proof (induction n arbitrary: dots buf)
  case 0
  show ?case by (subst mono_consume.simps) simp
next
  case (Suc n)
  have nz: "(of_nat (2 * Suc n) :: 32 word) \<noteq> 0"
    using Suc.prems by (intro of_nat_neq_0) simp_all
  have dec: "(of_nat (2 * Suc n) :: 32 word) - 2 = of_nat (2 * n)"
    by simp
  from Suc.prems have "n < 2 ^ 31" by simp
  from Suc.IH [OF this] show ?case
    by (subst mono_consume.simps) (simp only: nz dec if_True not_False_eq_True mono_drain.simps)
qed

lemma mono_consume_14:
  "mono_consume T 14 dots buf = (case mono_drain 7 T dots buf of (d, b) \<Rightarrow> Some (0, d, b))"
  using mono_consume_drain [of 7 T dots buf] by simp

lemma mono_byte_idle:
  "mono_byte mpats T lm i (0, 0, dots, buf) =
     (case mono_drain 7 T (dots OR mpats (ucast (lm i))) buf of (d, b) \<Rightarrow> Some (0, 0, d, b))"
  by (simp add: mono_consume_14 split: prod.splits)

lemma mono_drain_window: "fst (mono_drain n T dots buf) = drop_bit (2 * n) dots"
  by (induction n arbitrary: dots buf) (simp_all add: drop_bit_drop_bit add.commute)

lemma mono_drain_emitted:
  "length (tmdsbuf_red buf) = m \<and> length (tmdsbuf_green buf) = m \<and> length (tmdsbuf_blue buf) = m \<Longrightarrow>
   length (tmdsbuf_red (snd (mono_drain n T dots buf))) = m + n \<and>
   length (tmdsbuf_green (snd (mono_drain n T dots buf))) = m + n \<and>
   length (tmdsbuf_blue (snd (mono_drain n T dots buf))) = m + n"
proof (induction n arbitrary: m dots buf)
  case 0
  then show ?case by simp
next
  case (Suc n)
  have "length (tmdsbuf_red (put_symbols T (dots AND 0x3) buf)) = Suc m \<and>
        length (tmdsbuf_green (put_symbols T (dots AND 0x3) buf)) = Suc m \<and>
        length (tmdsbuf_blue (put_symbols T (dots AND 0x3) buf)) = Suc m"
    using Suc.prems by (simp add: put_symbols_def)
  from Suc.IH [OF this] show ?case by simp
qed

lemma mono_drain_map:
  "mono_drain n index_tables dots b = (d', b') \<Longrightarrow>
   mono_drain n T dots (map_scanline T b) = (d', map_scanline T b')"
  by (induction n arbitrary: dots b) (simp_all add: put_symbols_map)

lemma mono_bytes_Cons:
  "mono_bytes mpats T lm (i # ixs) (Some s) = mono_bytes mpats T lm ixs (mono_byte mpats T lm i s)"
  by (simp add: mono_bytes_def)

lemma mono_bytes_append:
  "mono_bytes mpats T lm (xs @ ys) st = mono_bytes mpats T lm ys (mono_bytes mpats T lm xs st)"
  by (simp add: mono_bytes_def)

lemma mono_byte_keeps_idle:
  "mono_idle n (Some s) \<Longrightarrow> mono_idle (n + 7) (mono_byte mpats T lm i s)"
proof -
  assume a: "mono_idle n (Some s)"
  obtain l c d b where s: "s = (l, c, d, b)" by (cases s)
  obtain d' b' where r: "mono_drain 7 T (d OR mpats (ucast (lm i))) b = (d', b')"
    by (cases "mono_drain 7 T (d OR mpats (ucast (lm i))) b")
  from a s have z: "l = 0" "c = 0"
    and len: "length (tmdsbuf_red b) = n \<and> length (tmdsbuf_green b) = n \<and> length (tmdsbuf_blue b) = n"
    by simp_all
  from mono_drain_emitted [OF len, of 7 T "d OR mpats (ucast (lm i))"] r
  show ?thesis
    unfolding s z mono_byte_idle by simp
qed

lemma mono_bytes_keep_idle:
  "mono_idle n st \<Longrightarrow> mono_idle (n + 7 * length ixs) (mono_bytes mpats T lm ixs st)"
proof (induction ixs arbitrary: n st)
  case Nil
  then show ?case by (simp add: mono_bytes_def)
next
  case (Cons i ixs)
  from Cons.prems obtain s where st: "st = Some s" by (cases st) auto
  from Cons.IH [OF mono_byte_keeps_idle [OF Cons.prems [unfolded st]]] show ?case
    unfolding st mono_bytes_Cons by (simp add: add.assoc)
qed

lemma mono_init_idle: "mono_idle 0 (Some (0, 0, 0, empty_scanline))"
  by (simp add: empty_scanline_def)

lemma mono_drain_inv:
  "tmdsbuf_green b = tmdsbuf_red b \<and> tmdsbuf_blue b = tmdsbuf_red b \<and>
     (\<forall>k < length (tmdsbuf_red b). tmdsbuf_red b ! k < 4) \<Longrightarrow>
   mono_drain n index_tables dots b = (d', b') \<Longrightarrow>
   tmdsbuf_green b' = tmdsbuf_red b' \<and> tmdsbuf_blue b' = tmdsbuf_red b' \<and>
     (\<forall>k < length (tmdsbuf_red b'). tmdsbuf_red b' ! k < 4)"
proof (induction n arbitrary: dots b)
  case 0
  then show ?case by simp
next
  case (Suc n)
  let ?b = "put_symbols index_tables (dots AND 0x3) b"
  have "tmdsbuf_green ?b = tmdsbuf_red ?b \<and> tmdsbuf_blue ?b = tmdsbuf_red ?b \<and>
     (\<forall>k < length (tmdsbuf_red ?b). tmdsbuf_red ?b ! k < 4)"
    using Suc.prems(1) mono_index_lt [of dots]
    by (auto simp: put_symbols_def index_tables_def nth_append less_Suc_eq)
  from Suc.IH [OF this] Suc.prems(2) show ?case by simp
qed

lemma mono_byte_keeps_inv:
  assumes "mono_idle n (Some s)" and "mono_inv (Some s)"
  shows "mono_inv (mono_byte mpats index_tables lm i s)"
proof -
  obtain l c d b where s: "s = (l, c, d, b)" by (cases s)
  obtain d' b' where r: "mono_drain 7 index_tables (d OR mpats (ucast (lm i))) b = (d', b')"
    by (cases "mono_drain 7 index_tables (d OR mpats (ucast (lm i))) b")
  from assms s have z: "l = 0" "c = 0"
    and inv: "tmdsbuf_green b = tmdsbuf_red b \<and> tmdsbuf_blue b = tmdsbuf_red b \<and>
     (\<forall>k < length (tmdsbuf_red b). tmdsbuf_red b ! k < 4)"
    by simp_all
  from mono_drain_inv [OF inv r] show ?thesis
    unfolding s z mono_byte_idle r by simp
qed

lemma mono_bytes_keep_inv:
  "mono_idle n st \<Longrightarrow> mono_inv st \<Longrightarrow> mono_inv (mono_bytes mpats index_tables lm ixs st)"
proof (induction ixs arbitrary: n st)
  case Nil
  then show ?case by (simp add: mono_bytes_def)
next
  case (Cons i ixs)
  from Cons.prems obtain s where st: "st = Some s" by (cases st) auto
  from Cons.IH [OF mono_byte_keeps_idle mono_byte_keeps_inv] Cons.prems show ?case
    unfolding st mono_bytes_Cons by blast
qed

lemma mono_bytes_map:
  "mono_bytes mpats index_tables lm ixs (Some (0, 0, d, b)) = Some (l', c', d', b') \<Longrightarrow>
   mono_bytes mpats T lm ixs (Some (0, 0, d, map_scanline T b)) = Some (l', c', d', map_scanline T b')"
proof (induction ixs arbitrary: d b)
  case Nil
  then show ?case by (simp add: mono_bytes_def)
next
  case (Cons i ixs)
  obtain d1 b1 where r: "mono_drain 7 index_tables (d OR mpats (ucast (lm i))) b = (d1, b1)"
    by (cases "mono_drain 7 index_tables (d OR mpats (ucast (lm i))) b")
  from Cons.prems have "mono_bytes mpats index_tables lm ixs (Some (0, 0, d1, b1)) = Some (l', c', d', b')"
    unfolding mono_bytes_Cons mono_byte_idle r by simp
  from Cons.IH [OF this] mono_drain_map [OF r, of T] show ?case
    unfolding mono_bytes_Cons mono_byte_idle by simp
qed

lemma drop_bit_14_small:
  fixes w :: "32 word"
  assumes "w < 2 ^ 14"
  shows "drop_bit 14 w = 0"
proof (rule bit_word_eqI)
  fix n
  have "\<not> bit w (14 + n)"
    using word_lt_2p_bitD [OF assms, of "14 + n"] by auto
  then show "bit (drop_bit 14 w) n \<longleftrightarrow> bit (0::32 word) n"
    by (simp add: bit_drop_bit_eq)
qed

lemma mono_byte_keeps_flushed:
  assumes "mono_idle n (Some s)" and "mono_flushed (Some s)" and "\<And>x. mpats x < 2 ^ 14"
  shows "mono_flushed (mono_byte mpats T lm i s)"
proof -
  obtain l c d b where s: "s = (l, c, d, b)" by (cases s)
  obtain d' b' where r: "mono_drain 7 T (d OR mpats (ucast (lm i))) b = (d', b')"
    by (cases "mono_drain 7 T (d OR mpats (ucast (lm i))) b")
  from assms(1,2) s have z: "l = 0" "c = 0" and dz: "d = 0" by simp_all
  have "d' = drop_bit 14 (mpats (ucast (lm i)))"
    using mono_drain_window [of 7 T "d OR mpats (ucast (lm i))" b] r dz by simp
  then have "d' = 0" using assms(3) by (simp add: drop_bit_14_small)
  then show ?thesis
    unfolding s z mono_byte_idle r by simp
qed

lemma mono_bytes_keep_flushed:
  assumes "\<And>x. mpats x < 2 ^ 14"
  shows "mono_idle n st \<Longrightarrow> mono_flushed st \<Longrightarrow> mono_flushed (mono_bytes mpats T lm ixs st)"
proof (induction ixs arbitrary: n st)
  case Nil
  then show ?case by (simp add: mono_bytes_def)
next
  case (Cons i ixs)
  from Cons.prems obtain s where st: "st = Some s" by (cases st) auto
  from Cons.IH [OF mono_byte_keeps_idle mono_byte_keeps_flushed] Cons.prems assms show ?case
    unfolding st mono_bytes_Cons by blast
qed

lemma color_indices_inv:
  assumes s: "color_scanline pats index_tables lm = (od, d, b)"
  shows "tmdsbuf_red b = color_indices pats lm \<and>
    tmdsbuf_green b = color_indices pats lm \<and>
    tmdsbuf_blue b = color_indices pats lm \<and>
    length (color_indices pats lm) = 280 \<and>
    (\<forall>k < 280. color_indices pats lm ! k AND 0x100 = oddness_at k \<and>
       color_indices pats lm ! k < 512)"
proof -
  have i: "color_inv (od, d, b)"
    using color_bytes_inv [OF color_init_inv [of pats lm], where pats = pats and lm = lm and ixs = "[1..<41]"] s
    by (simp add: color_scanline_def)
  have e: "symbols_emitted 280 (od, d, b)"
    using color_scanline_emitted [of pats index_tables lm] s by simp
  have r: "tmdsbuf_red b = color_indices pats lm"
    by (simp add: color_indices_def s)
  show ?thesis
    using i e r by simp
qed

lemma and_0x100_iff: "w AND 0x100 = 0 \<longleftrightarrow> \<not> bit w 8" for w :: "32 word"
  using and_exp_eq_0_iff_not_bit [of w 8] by simp

lemma and_0x8_iff: "w AND 0x8 = 0 \<longleftrightarrow> \<not> bit w 3" for w :: "32 word"
  using and_exp_eq_0_iff_not_bit [of w 3] by simp

lemma bit_int_0x8: "bit (0x8::int) n \<longleftrightarrow> n = 3"
  using bit_exp_iff [where ?'a = int, of 3 n] by auto

lemma and_0x108_iff: "w AND 0x108 = 0x8 \<longleftrightarrow> \<not> bit w 8 \<and> bit w 3" for w :: "32 word"
proof
  assume a: "w AND 0x108 = 0x8"
  have "bit (w AND 0x108) 8 \<longleftrightarrow> bit w 8" "bit (w AND 0x108) 3 \<longleftrightarrow> bit w 3"
    by (simp_all add: bit_and_iff)
  then show "\<not> bit w 8 \<and> bit w 3"
    unfolding a by simp
next
  assume a: "\<not> bit w 8 \<and> bit w 3"
  have d: "(0x108::32 word) = 0x100 OR 0x8" by simp
  have "w AND 0x100 = 0" using a by (simp add: and_0x100_iff)
  moreover have "w AND 0x8 = 0x8"
    using a by (intro bit_word_eqI) (auto simp: bit_and_iff bit_int_0x8)
  ultimately show "w AND 0x108 = 0x8"
    unfolding d bit.conj_disj_distrib by simp
qed

lemma PAGE2SEL_iff:
  "PAGE2SEL ss \<longleftrightarrow> ss AND SOFTSW_80STORE = 0 \<and> ss AND SOFTSW_PAGE_2 \<noteq> 0"
  unfolding PAGE2SEL_def SOFTSW_80STORE_def SOFTSW_PAGE_2_def
  using and_0x108_iff [of ss] by (simp add: and_0x100_iff and_0x8_iff)

lemma color_bytes_snoc:
  "color_bytes pats T lm (ixs @ [i]) st = color_byte pats T lm i (color_bytes pats T lm ixs st)"
  by (simp add: color_bytes_def)

lemma upt_1_Suc: "1 \<le> k \<Longrightarrow> [1..<Suc k] = [1..<k] @ [k]"
  by simp

lemma color_consume_unfold:
  "color_consume T st =
     color_dot T (color_dot T (color_dot T (color_dot T (color_dot T (color_dot T (color_dot T st))))))"
  by (simp add: color_consume_def upt_rec)

lemma color_bytes_prefix_emitted:
  "symbols_emitted (7 * k) (color_bytes pats T lm [1..<Suc k] (color_init pats lm))"
  using color_bytes_emitted [OF color_init_emitted [of pats lm], of "[1..<Suc k]" pats T lm]
  by (simp del: upt_Suc)

lemma mono_prefix_idle:
  "mono_idle (7 * k) (mono_bytes mpats T lm [0..<k] (Some (0, 0, 0, empty_scanline)))"
  using mono_bytes_keep_idle [OF mono_init_idle, of "[0..<k]" mpats T lm] by simp

lemma mono_prefix_flushed:
  assumes "\<And>x. mpats x < 2 ^ 14"
  shows "mono_flushed (mono_bytes mpats T lm [0..<k] (Some (0, 0, 0, empty_scanline)))"
  using mono_bytes_keep_flushed
    [OF assms mono_init_idle, where ixs = "[0..<k]" and T = T and lm = lm]
  by (simp add: empty_scanline_def)

lemma mono_drain_red:
  "length (tmdsbuf_red (snd (mono_drain n T dots buf))) = length (tmdsbuf_red buf) + n"
  by (induction n arbitrary: dots buf) (simp_all add: put_symbols_def)

lemma mono_idle_SomeE:
  assumes "mono_idle n st"
  obtains dots buf where "st = Some (0, 0, dots, buf)"
    and "length (tmdsbuf_red buf) = n" and "length (tmdsbuf_green buf) = n"
    and "length (tmdsbuf_blue buf) = n"
proof (cases st)
  case None
  with assms show ?thesis by simp
next
  case (Some s)
  obtain l c d b where "s = (l, c, d, b)" by (cases s)
  with Some assms that show ?thesis by simp
qed

lemma ucast_byte_lt: "(ucast (w :: 8 word) :: 32 word) < 256"
proof -
  have "(ucast w :: 32 word) < 2 ^ 8"
    by (rule word_lt_2p_bitI) (auto simp: bit_ucast_iff dest: bit_imp_le_length)
  then show ?thesis by simp
qed

lemma mono_scanline_map:
  "mono_scanline mpats index_tables lm = Some (l, c, d, b) \<Longrightarrow>
   mono_scanline mpats T lm = Some (l, c, d, map_scanline T b)"
  unfolding mono_scanline_def
  using mono_bytes_map [of mpats lm "[0..<40]" 0 empty_scanline l c d b T]
  by (simp add: empty_scanline_map)

lemma mono_init_inv: "mono_inv (Some (0, 0, 0, empty_scanline))"
  by (simp add: empty_scanline_def)

lemma mono_indices_inv:
  obtains dots buf where "mono_scanline mpats index_tables lm = Some (0, 0, dots, buf)"
    and "tmdsbuf_red buf = mono_indices mpats lm"
    and "tmdsbuf_green buf = mono_indices mpats lm"
    and "tmdsbuf_blue buf = mono_indices mpats lm"
    and "length (mono_indices mpats lm) = 280"
    and "\<forall>k < 280. mono_indices mpats lm ! k < 4"
proof -
  from mono_prefix_idle [of 40 mpats index_tables lm]
  obtain dots buf where
    s: "mono_bytes mpats index_tables lm [0..<40] (Some (0, 0, 0, empty_scanline)) = Some (0, 0, dots, buf)"
    and len: "length (tmdsbuf_red buf) = 7 * 40"
    by (rule mono_idle_SomeE)
  have inv: "mono_inv (Some (0, 0, dots, buf))"
    using mono_bytes_keep_inv [OF mono_init_idle mono_init_inv, of mpats lm "[0..<40]"] s by simp
  have m: "mono_scanline mpats index_tables lm = Some (0, 0, dots, buf)"
    using s by (simp add: mono_scanline_def)
  have r: "tmdsbuf_red buf = mono_indices mpats lm"
    by (simp add: mono_indices_def m)
  show ?thesis
    using that [OF m r] inv len r by simp
qed

lemma set_machine_fields:
  "current_machine (set_machine h m g) = m"
  "cfg_machine (set_machine h m g) = cfg_machine g"
  "config_globals.color_mode (set_machine h m g) = config_globals.color_mode g"
  "config_globals.invalid_fonts (set_machine h m g) = config_globals.invalid_fonts g"
  "character_rom (set_machine h m g) = character_rom g"
  "detected_machine (set_machine h m g) = detected_machine g"
  by (simp_all add: set_machine_def Let_def)

lemma set_machine_flags:
  "internal_flags (set_machine h m g) AND (0x3fffffff :: 32 word) = internal_flags g AND 0x3fffffff"
  by (simp add: set_machine_def Let_def IFLAGS_IIGS_REGS_def IFLAGS_IIE_REGS_def
      and.assoc bit.conj_disj_distrib2)


lemma low_flags_mask:
  "IFLAGS_SCANLINEEMU AND 0x3fffffff = IFLAGS_SCANLINEEMU"
  "IFLAGS_DEBUG_LINES AND 0x3fffffff = IFLAGS_DEBUG_LINES"
  "IFLAGS_FORCED_MONO AND 0x3fffffff = IFLAGS_FORCED_MONO"
  "IFLAGS_VIDEO7 AND 0x3fffffff = IFLAGS_VIDEO7"
  "IFLAGS_TEST AND 0x3fffffff = IFLAGS_TEST"
  by (simp_all add: IFLAGS_SCANLINEEMU_def IFLAGS_DEBUG_LINES_def IFLAGS_FORCED_MONO_def
      IFLAGS_VIDEO7_def IFLAGS_TEST_def)

lemma set_machine_low_flag:
  assumes "F AND 0x3fffffff = F"
  shows "internal_flags (set_machine h m g) AND F = internal_flags g AND F"
proof -
  have "internal_flags (set_machine h m g) AND F =
        (internal_flags (set_machine h m g) AND 0x3fffffff) AND F"
    using assms by (metis and.assoc and.commute)
  also have "\<dots> = (internal_flags g AND 0x3fffffff) AND F"
    by (simp only: set_machine_flags)
  also have "\<dots> = internal_flags g AND F"
    using assms by (metis and.assoc and.commute)
  finally show ?thesis .
qed

lemma config_load_defaults_fields:
  "config_globals.color_mode (config_load_defaults h g) = COLOR_MODE_BW h"
  "cfg_machine (config_load_defaults h g) = MACHINE_AUTO h"
  "current_machine (config_load_defaults h g) = detected_machine g"
  "config_globals.language_switch_enabled (config_load_defaults h g) = False"
  "config_globals.enhanced_font_enabled (config_load_defaults h g) = True"
  "cfg_local_charset (config_load_defaults h g) = DEFAULT_LOCAL_CHARSET h"
  "cfg_alt_charset (config_load_defaults h g) = DEFAULT_ALT_CHARSET h"
  "reload_charsets (config_load_defaults h g) = 3"
  "character_rom (config_load_defaults h g) = character_rom g"
  "config_globals.invalid_fonts (config_load_defaults h g) = config_globals.invalid_fonts g"
  "detected_machine (config_load_defaults h g) = detected_machine g"
  by (simp_all add: config_load_defaults_def Let_def set_machine_fields SET_IFLAG_def)

lemma config_load_defaults_flags:
  "internal_flags (config_load_defaults h g) AND IFLAGS_SCANLINEEMU = IFLAGS_SCANLINEEMU"
  "internal_flags (config_load_defaults h g) AND IFLAGS_DEBUG_LINES = 0"
  "internal_flags (config_load_defaults h g) AND IFLAGS_FORCED_MONO = 0"
  "internal_flags (config_load_defaults h g) AND IFLAGS_VIDEO7 = 0"
  "internal_flags (config_load_defaults h g) AND IFLAGS_TEST = 0"
  unfolding config_load_defaults_def Let_def
  by (simp_all add: set_machine_low_flag [OF low_flags_mask(1)] set_machine_low_flag [OF low_flags_mask(2)]
      set_machine_low_flag [OF low_flags_mask(3)] set_machine_low_flag [OF low_flags_mask(4)]
      set_machine_low_flag [OF low_flags_mask(5)] SET_IFLAG_def)
     (simp_all add: IFLAGS_SCANLINEEMU_def IFLAGS_DEBUG_LINES_def IFLAGS_FORCED_MONO_def
      IFLAGS_VIDEO7_def IFLAGS_TEST_def and.assoc bit.conj_disj_distrib2)

lemma render_hires_line_color:
  "\<not> mono_rendering G \<Longrightarrow>
   render_hires_line H G p2 line =
     Some (snd (snd (color_scanline (hires_dot_patterns H) (hires_color_patterns H)
                       (line_mem_of G p2 line))))"
  by (simp add: render_hires_line_def Let_def split: prod.splits)

lemma render_hires_line_mono:
  assumes "mono_rendering G"
  obtains dots buf where
    "mono_scanline (hires_dot_patterns2 H) (hires_mono_patterns H) (line_mem_of G p2 line) =
       Some (0, 0, dots, buf)"
    and "render_hires_line H G p2 line = Some buf"
proof -
  from mono_prefix_idle [of 40 "hires_dot_patterns2 H" "hires_mono_patterns H" "line_mem_of G p2 line"]
  obtain dots buf where
    s: "mono_bytes (hires_dot_patterns2 H) (hires_mono_patterns H) (line_mem_of G p2 line) [0..<40]
          (Some (0, 0, 0, empty_scanline)) = Some (0, 0, dots, buf)"
    by (rule mono_idle_SomeE)
  then have m: "mono_scanline (hires_dot_patterns2 H) (hires_mono_patterns H) (line_mem_of G p2 line) =
       Some (0, 0, dots, buf)"
    by (simp add: mono_scanline_def)
  then have "render_hires_line H G p2 line = Some buf"
    using assms by (simp add: render_hires_line_def Let_def)
  with m show ?thesis by (rule that)
qed

lemma render_hires_line_Some: "\<exists>buf. render_hires_line H G p2 line = Some buf"
proof (cases "mono_rendering G")
  case True
  then show ?thesis by (rule render_hires_line_mono) blast
next
  case False
  then show ?thesis by (simp add: render_hires_line_color)
qed

lemma render_lines_Suc:
  "render_lines H G (Suc n) =
     (case render_lines H G n of
        None \<Rightarrow> None
      | Some ls \<Rightarrow>
          (case render_hires_line H (G n) (PAGE2SEL (soft_switches (G n))) (of_nat n) of
             None \<Rightarrow> None
           | Some l \<Rightarrow> Some (ls @ [l])))"
  by (simp add: render_lines_def)

lemma render_lines_sent:
  "\<exists>ls. render_lines H G n = Some ls \<and> length ls = n \<and>
     (\<forall>line < n. render_hires_line H (G line) (PAGE2SEL (soft_switches (G line))) (of_nat line) =
        Some (ls ! line))"
proof (induction n)
  case 0
  show ?case by (simp add: render_lines_def)
next
  case (Suc n)
  then obtain ls where ls: "render_lines H G n = Some ls" "length ls = n"
    and nth: "\<forall>line < n. render_hires_line H (G line) (PAGE2SEL (soft_switches (G line))) (of_nat line) =
        Some (ls ! line)"
    by blast
  obtain l where l: "render_hires_line H (G n) (PAGE2SEL (soft_switches (G n))) (of_nat n) = Some l"
    using render_hires_line_Some by blast
  have "render_lines H G (Suc n) = Some (ls @ [l])"
    by (simp add: render_lines_Suc ls l)
  moreover have "\<forall>line < Suc n.
      render_hires_line H (G line) (PAGE2SEL (soft_switches (G line))) (of_nat line) =
        Some ((ls @ [l]) ! line)"
    using nth l ls(2) by (auto simp: nth_append less_Suc_eq)
  ultimately show ?case using ls(2) by simp
qed

section \<open>Properties of the renderer and of the configuration loader\<close>

text \<open>
  C1. For every content of the bitmap page and of the tables, \<^verbatim>\<open>render_hires_line\<close> with
  \<^verbatim>\<open>mono_rendering\<close> false returns a scanline of exactly 280 symbols in each of the red,
  green and blue buffers, that is 280 symbol triples. The \<open>k\<close>-th triple holds the entries
  of the three colour tables at the index \<open>color_indices ! k\<close>, the value of
  \<^verbatim>\<open>oddness | ((dots >> 24) & 0xff)\<close> when the triple is stored; bit 8 of the index is the
  oddness flag. The flag is 0 for the first triple and is toggled after every triple, so it
  is 0 at even \<open>k\<close> and \<^verbatim>\<open>0x100\<close> at odd \<open>k\<close> for the whole line.
\<close>

theorem color_scanline_280_triples_alternating:
  assumes "\<not> mono_rendering G"
  shows "\<exists>buf.
     render_hires_line H G p2 line = Some buf \<and>
     length (tmdsbuf_red buf) = 280 \<and> length (tmdsbuf_green buf) = 280 \<and>
     length (tmdsbuf_blue buf) = 280 \<and>
     tmdsbuf_red buf =
       map (patterns_red (hires_color_patterns H))
         (color_indices (hires_dot_patterns H) (line_mem_of G p2 line)) \<and>
     tmdsbuf_green buf =
       map (patterns_green (hires_color_patterns H))
         (color_indices (hires_dot_patterns H) (line_mem_of G p2 line)) \<and>
     tmdsbuf_blue buf =
       map (patterns_blue (hires_color_patterns H))
         (color_indices (hires_dot_patterns H) (line_mem_of G p2 line)) \<and>
     (\<forall>k < 280. color_indices (hires_dot_patterns H) (line_mem_of G p2 line) ! k AND 0x100 =
                 (if even k then 0 else 0x100))"
proof -
  let ?pats = "hires_dot_patterns H" and ?T = "hires_color_patterns H"
    and ?lm = "line_mem_of G p2 line"
  obtain od d b where s: "color_scanline ?pats index_tables ?lm = (od, d, b)"
    by (cases "color_scanline ?pats index_tables ?lm")
  have "color_scanline ?pats ?T ?lm = (od, d, map_scanline ?T b)"
    by (rule color_scanline_map [OF s])
  then have "render_hires_line H G p2 line = Some (map_scanline ?T b)"
    using assms by (simp add: render_hires_line_color)
  then show ?thesis
    using color_indices_inv [OF s] by (simp add: map_scanline_def oddness_at_def)
qed

theorem color_scanline_280_triples_alternating_witness:
  "\<not> mono_rendering \<lparr>soft_switches = 0, mono_rendering = False, apple_memory = (\<lambda>a. 0)\<rparr> \<and>
   (\<exists>buf.
      render_hires_line
        \<lparr>hires_dot_patterns = (\<lambda>i. 0), hires_dot_patterns2 = (\<lambda>i. 0),
         hires_color_patterns = index_tables, TMDS_SYMBOL_0_0 = 0, TMDS_SYMBOL_255_0 = 1,
         TMDS_SYMBOL_0_255 = 2, TMDS_SYMBOL_255_255 = 3\<rparr>
        \<lparr>soft_switches = 0, mono_rendering = False, apple_memory = (\<lambda>a. 0)\<rparr> False 0 = Some buf \<and>
      length (tmdsbuf_red buf) = 280 \<and>
      tmdsbuf_red buf ! 0 AND 0x100 = 0 \<and>
      tmdsbuf_red buf ! 1 AND 0x100 = 0x100 \<and>
      tmdsbuf_red buf ! 279 AND 0x100 = 0x100)"
proof -
  let ?G = "\<lparr>soft_switches = 0, mono_rendering = False, apple_memory = (\<lambda>a. 0)\<rparr>"
  let ?H = "\<lparr>hires_dot_patterns = (\<lambda>i. 0), hires_dot_patterns2 = (\<lambda>i. 0),
         hires_color_patterns = index_tables, TMDS_SYMBOL_0_0 = 0, TMDS_SYMBOL_255_0 = 1,
         TMDS_SYMBOL_0_255 = 2, TMDS_SYMBOL_255_255 = 3\<rparr>"
  have color: "\<not> mono_rendering ?G" by simp
  from color_scanline_280_triples_alternating [OF color, of ?H False 0]
  obtain buf where buf: "render_hires_line ?H ?G False 0 = Some buf"
    and len: "length (tmdsbuf_red buf) = 280"
    and red: "tmdsbuf_red buf =
       map (patterns_red index_tables) (color_indices (\<lambda>i. 0) (line_mem_of ?G False 0))"
    and odd: "\<forall>k < 280. color_indices (\<lambda>i. 0) (line_mem_of ?G False 0) ! k AND 0x100 =
                 (if even k then 0 else 0x100)"
    by auto
  have idx: "tmdsbuf_red buf = color_indices (\<lambda>i. 0) (line_mem_of ?G False 0)"
    using red by (simp add: index_tables_def)
  have "tmdsbuf_red buf ! 0 AND 0x100 = 0" "tmdsbuf_red buf ! 1 AND 0x100 = 0x100"
    "tmdsbuf_red buf ! 279 AND 0x100 = 0x100"
    using odd unfolding idx by simp_all
  with color buf len show ?thesis by blast
qed

text \<open>
  C2. For every 8-bit line value, and so for every line index in [0,192),
  \<^verbatim>\<open>hires_line_to_mem_offset(line)\<close> equals the reference interleave formula
  \<^verbatim>\<open>((line & 7) << 10) | ((line & 0x38) << 4) | ((line >> 6) * 40)\<close>, and its result lies
  in [0, 8192). The function is a HOL function of its argument alone, hence pure and
  deterministic.
\<close>

theorem hires_line_to_mem_offset_reference:
  "line < 256 \<Longrightarrow>
   hires_line_to_mem_offset line = reference_interleave line \<and>
   hires_line_to_mem_offset line < 8192"
  unfolding reference_interleave_def
  using hires_line_to_mem_offset_lt [of line]
  by (simp only: hires_line_to_mem_offset_def offset_third_8bit)

theorem hires_line_to_mem_offset_reference_witness:
  "(191::32 word) < 256 \<and> hires_line_to_mem_offset 191 = reference_interleave 191 \<and>
   hires_line_to_mem_offset 191 = 8144"
  using hires_line_to_mem_offset_reference [of 191] by (simp add: reference_interleave_def)

text \<open>
  C3. Let \<open>(oddness, dots, buf)\<close> be the state of the colour path before its \<open>k\<close>-th byte
  iteration (\<open>1 \<le> k \<le> 40\<close>) and \<open>b\<close> the byte of that iteration. The low 15 bits of
  the window are clear there. If \<^verbatim>\<open>b & 0x80\<close> is set, the statement
  \<^verbatim>\<open>dots |= (dots & (1u << 15)) >> 1\<close> gives bit 14 the value of bit 15, the trailing bit
  of the window; if it is clear the window is unchanged. No bit other than bit 14 is
  changed, so one bit at most is carried across the byte boundary, and only when the high
  bit of the byte is set. The pattern of the new byte is then merged at bit offset 1, and the
  seven groups are consumed.
\<close>

theorem color_byte_boundary_bit:
  assumes "1 \<le> k" and "k \<le> 40"
  shows "case color_bytes pats T line_mem [1..<k] (color_init pats line_mem) of
     (oddness, dots, buf) \<Rightarrow>
       (let b = next_byte line_mem k; ext = extend_last_bit b dots
        in (\<forall>n < 15. \<not> bit dots n) \<and>
           (bit ext 14 \<longleftrightarrow> b AND 0x80 \<noteq> 0 \<and> bit dots 15) \<and>
           (\<forall>n. n \<noteq> 14 \<longrightarrow> bit ext n = bit dots n) \<and>
           (b AND 0x80 = 0 \<longrightarrow> ext = dots) \<and>
           color_bytes pats T line_mem [1..<Suc k] (color_init pats line_mem) =
             color_consume T (oddness, ext OR push_bit 1 (pats b), buf))"
proof -
  obtain od d b where s: "color_bytes pats T line_mem [1..<k] (color_init pats line_mem) = (od, d, b)"
    by (cases "color_bytes pats T line_mem [1..<k] (color_init pats line_mem)")
  have low: "\<forall>n < 15. \<not> bit d n"
    using color_bytes_low15 [OF color_init_low15 [of pats line_mem], of pats T line_mem "[1..<k]"] s
    by simp
  let ?b = "next_byte line_mem k"
  have e14: "bit (extend_last_bit ?b d) 14 \<longleftrightarrow> ?b AND 0x80 \<noteq> 0 \<and> bit d 15"
    using low by (simp add: bit_extend_last_bit and_0x80_iff)
  have others: "\<forall>n. n \<noteq> 14 \<longrightarrow> bit (extend_last_bit ?b d) n = bit d n"
    by (simp add: bit_extend_last_bit)
  have clear: "?b AND 0x80 = 0 \<longrightarrow> extend_last_bit ?b d = d"
    by (simp add: extend_last_bit_def)
  have step: "color_bytes pats T line_mem [1..<Suc k] (color_init pats line_mem) =
      color_consume T (od, extend_last_bit ?b d OR push_bit 1 (pats ?b), b)"
    unfolding upt_1_Suc [OF assms(1)] color_bytes_snoc s
    by (simp add: Let_def load_dots_def)
  show ?thesis
    unfolding s using low e14 others clear step by (simp add: Let_def)
qed

theorem color_byte_boundary_bit_witness:
  "(1::nat) \<le> 1 \<and> (1::nat) \<le> 40 \<and>
   color_bytes (\<lambda>i. 1) index_tables (\<lambda>i. 0x80) [1..<1] (color_init (\<lambda>i. 1) (\<lambda>i. 0x80)) =
     (0, 0x8000, empty_scanline) \<and>
   next_byte (\<lambda>i. 0x80) 1 = 0x80 \<and>
   bit (extend_last_bit 0x80 0x8000) 14"
  using color_byte_boundary_bit [where k = 1 and pats = "\<lambda>i. 1" and T = index_tables and line_mem = "\<lambda>i. 0x80"]
  by (simp add: color_bytes_def color_init_def next_byte_def Let_def)

text \<open>
  C4. The specification counts 41 iterations, each consuming seven groups. The loop
  \<^verbatim>\<open>for(uint i=1; i < 41; i++)\<close> runs 40 times: for the all-zero line and tables the
  scanline is not what 41 iterations give, and it holds 280 triples, not 41 * 7.
\<close>

theorem color_scanline_41_iterations_counterexample:
  "color_scanline (\<lambda>i. 0) index_tables (\<lambda>i. 0) \<noteq>
     color_bytes (\<lambda>i. 0) index_tables (\<lambda>i. 0) [1..<42] (color_init (\<lambda>i. 0) (\<lambda>i. 0)) \<and>
   length (color_indices (\<lambda>i. 0) (\<lambda>i. 0)) \<noteq> 41 * 7"
proof -
  let ?P = "\<lambda>i::32 word. 0::32 word" and ?L = "\<lambda>i::nat. 0::8 word"
  obtain od d b where s: "color_scanline ?P index_tables ?L = (od, d, b)"
    by (cases "color_scanline ?P index_tables ?L")
  have a: "symbols_emitted 280 (color_scanline ?P index_tables ?L)"
    by (rule color_scanline_emitted)
  have b: "symbols_emitted 287 (color_bytes ?P index_tables ?L [1..<42] (color_init ?P ?L))"
    using color_bytes_prefix_emitted [of 41 ?P index_tables ?L] by simp
  have "color_scanline ?P index_tables ?L \<noteq> color_bytes ?P index_tables ?L [1..<42] (color_init ?P ?L)"
  proof
    assume "color_scanline ?P index_tables ?L = color_bytes ?P index_tables ?L [1..<42] (color_init ?P ?L)"
    with a b s show False by simp
  qed
  moreover have "length (color_indices ?P ?L) = 280"
    using color_indices_inv [OF s] by simp
  ultimately show ?thesis by simp
qed

text \<open>
  C4, amended. The colour path seeds its 32-bit window with the pattern of byte 0 shifted
  left by 15, with oddness 0 and an empty scanline. It then runs 40 iterations, for
  \<open>k\<close> from 1 to 40: iteration \<open>k\<close> merges one byte, which is \<^verbatim>\<open>line_mem[k]\<close> for
  \<open>k < 40\<close> (the 39 bytes 1..39) and a synthetic zero byte for \<open>k = 40\<close>, and then
  consumes exactly seven 2-bit groups, each storing one symbol triple and shifting the
  window left by 2. After \<open>k\<close> iterations \<open>7 * k\<close> triples are stored, 280 at the end.
\<close>

theorem color_scanline_40_iterations:
  "color_scanline pats T line_mem =
     color_bytes pats T line_mem [1..<Suc 40] (color_init pats line_mem) \<and>
   color_init pats line_mem = (0, push_bit 15 (pats (ucast (line_mem 0))), empty_scanline) \<and>
   (\<forall>k. 1 \<le> k \<and> k \<le> 40 \<longrightarrow>
      next_byte line_mem k = (if k = 40 then 0 else ucast (line_mem k)) \<and>
      (case color_bytes pats T line_mem [1..<k] (color_init pats line_mem) of
         (oddness, dots, buf) \<Rightarrow>
           color_bytes pats T line_mem [1..<Suc k] (color_init pats line_mem) =
             color_consume T
               (oddness,
                load_dots pats (next_byte line_mem k) (extend_last_bit (next_byte line_mem k) dots),
                buf) \<and>
           length (tmdsbuf_red buf) = 7 * (k - 1))) \<and>
   (\<forall>k. case color_bytes pats T line_mem [1..<Suc k] (color_init pats line_mem) of
         (oddness, dots, buf) \<Rightarrow>
           length (tmdsbuf_red buf) = 7 * k \<and> length (tmdsbuf_green buf) = 7 * k \<and>
           length (tmdsbuf_blue buf) = 7 * k) \<and>
   (\<forall>st. color_consume T st =
      color_dot T (color_dot T (color_dot T (color_dot T (color_dot T (color_dot T (color_dot T st))))))) \<and>
   (\<forall>oddness dots buf.
      color_dot T (oddness, dots, buf) =
        (oddness XOR 0x100, push_bit 2 dots,
         put_symbols T (oddness OR (drop_bit 24 dots AND 0xff)) buf))"
proof -
  have c1: "color_scanline pats T line_mem =
     color_bytes pats T line_mem [1..<Suc 40] (color_init pats line_mem)"
    by (simp add: color_scanline_def)
  have c2: "color_init pats line_mem = (0, push_bit 15 (pats (ucast (line_mem 0))), empty_scanline)"
    by (simp add: color_init_def)
  have emitted: "\<forall>k. case color_bytes pats T line_mem [1..<Suc k] (color_init pats line_mem) of
         (oddness, dots, buf) \<Rightarrow>
           length (tmdsbuf_red buf) = 7 * k \<and> length (tmdsbuf_green buf) = 7 * k \<and>
           length (tmdsbuf_blue buf) = 7 * k"
  proof
    fix k
    show "case color_bytes pats T line_mem [1..<Suc k] (color_init pats line_mem) of
         (oddness, dots, buf) \<Rightarrow>
           length (tmdsbuf_red buf) = 7 * k \<and> length (tmdsbuf_green buf) = 7 * k \<and>
           length (tmdsbuf_blue buf) = 7 * k"
      using color_bytes_prefix_emitted [of k pats T line_mem]
      by (cases "color_bytes pats T line_mem [1..<Suc k] (color_init pats line_mem)")
         (simp del: upt_Suc)
  qed
  have iter: "\<forall>k. 1 \<le> k \<and> k \<le> 40 \<longrightarrow>
      next_byte line_mem k = (if k = 40 then 0 else ucast (line_mem k)) \<and>
      (case color_bytes pats T line_mem [1..<k] (color_init pats line_mem) of
         (oddness, dots, buf) \<Rightarrow>
           color_bytes pats T line_mem [1..<Suc k] (color_init pats line_mem) =
             color_consume T
               (oddness,
                load_dots pats (next_byte line_mem k) (extend_last_bit (next_byte line_mem k) dots),
                buf) \<and>
           length (tmdsbuf_red buf) = 7 * (k - 1))"
  proof (intro allI impI)
    fix k :: nat
    assume k: "1 \<le> k \<and> k \<le> 40"
    obtain od d b where s: "color_bytes pats T line_mem [1..<k] (color_init pats line_mem) = (od, d, b)"
      by (cases "color_bytes pats T line_mem [1..<k] (color_init pats line_mem)")
    from k obtain j where j: "k = Suc j" by (cases k) auto
    have len: "length (tmdsbuf_red b) = 7 * (k - 1)"
      using color_bytes_prefix_emitted [of j pats T line_mem] s j by (simp del: upt_Suc)
    have step: "color_bytes pats T line_mem [1..<Suc k] (color_init pats line_mem) =
        color_consume T (od, load_dots pats (next_byte line_mem k) (extend_last_bit (next_byte line_mem k) d), b)"
      unfolding upt_1_Suc [OF conjunct1 [OF k]] color_bytes_snoc s
      by (simp add: Let_def)
    have byte: "next_byte line_mem k = (if k = 40 then 0 else ucast (line_mem k))"
      using k by (auto simp: next_byte_def)
    show "next_byte line_mem k = (if k = 40 then 0 else ucast (line_mem k)) \<and>
      (case color_bytes pats T line_mem [1..<k] (color_init pats line_mem) of
         (oddness, dots, buf) \<Rightarrow>
           color_bytes pats T line_mem [1..<Suc k] (color_init pats line_mem) =
             color_consume T
               (oddness,
                load_dots pats (next_byte line_mem k) (extend_last_bit (next_byte line_mem k) dots),
                buf) \<and>
           length (tmdsbuf_red buf) = 7 * (k - 1))"
      unfolding s using byte step len by simp
  qed
  have c5: "\<forall>st. color_consume T st =
      color_dot T (color_dot T (color_dot T (color_dot T (color_dot T (color_dot T (color_dot T st))))))"
    using color_consume_unfold by blast
  have c6: "\<forall>oddness dots buf.
      color_dot T (oddness, dots, buf) =
        (oddness XOR 0x100, push_bit 2 dots,
         put_symbols T (oddness OR (drop_bit 24 dots AND 0xff)) buf)"
    by (simp add: Let_def)
  show ?thesis
    by (intro conjI c1 c2 iter emitted c5 c6)
qed

theorem color_scanline_40_iterations_witness:
  "next_byte (\<lambda>i. 0xff) 39 = 0xff \<and> next_byte (\<lambda>i. 0xff) 40 = 0 \<and>
   length (tmdsbuf_red (snd (snd (color_scanline (\<lambda>i. 0) index_tables (\<lambda>i. 0xff))))) = 7 * 40"
proof -
  note t = color_scanline_40_iterations [where pats = "\<lambda>i. 0" and T = index_tables and line_mem = "\<lambda>i. 0xff"]
  from t have a: "color_scanline (\<lambda>i. 0) index_tables (\<lambda>i. 0xff) =
     color_bytes (\<lambda>i. 0) index_tables (\<lambda>i. 0xff) [1..<Suc 40] (color_init (\<lambda>i. 0) (\<lambda>i. 0xff))"
    by (rule conjunct1)
  from t [THEN conjunct2, THEN conjunct2, THEN conjunct1]
  have "\<forall>k. 1 \<le> k \<and> k \<le> 40 \<longrightarrow>
      next_byte (\<lambda>i. 0xff) k = (if k = 40 then 0 else ucast (0xff :: 8 word))"
    by simp
  then have b: "next_byte (\<lambda>i. 0xff) 39 = 0xff" "next_byte (\<lambda>i. 0xff) 40 = 0"
    by (simp_all del: upt_Suc)
  from t [THEN conjunct2, THEN conjunct2, THEN conjunct2, THEN conjunct1]
  have "\<forall>k. case color_bytes (\<lambda>i. 0) index_tables (\<lambda>i. 0xff) [1..<Suc k]
                 (color_init (\<lambda>i. 0) (\<lambda>i. 0xff)) of
         (oddness, dots, buf) \<Rightarrow> length (tmdsbuf_red buf) = 7 * k \<and>
           length (tmdsbuf_green buf) = 7 * k \<and> length (tmdsbuf_blue buf) = 7 * k" .
  then have "case color_bytes (\<lambda>i. 0) index_tables (\<lambda>i. 0xff) [1..<Suc 40]
                 (color_init (\<lambda>i. 0) (\<lambda>i. 0xff)) of
         (oddness, dots, buf) \<Rightarrow> length (tmdsbuf_red buf) = 7 * 40 \<and>
           length (tmdsbuf_green buf) = 7 * 40 \<and> length (tmdsbuf_blue buf) = 7 * 40"
    by (rule spec)
  then have c: "length (tmdsbuf_red (snd (snd (color_scanline (\<lambda>i. 0) index_tables (\<lambda>i. 0xff))))) = 7 * 40"
    unfolding a by (simp split: prod.splits)
  from b c show ?thesis by simp
qed

text \<open>
  C5. The specification says that with the PAGE_2 bit set and the 80STORE bit clear the frame
  orchestrator selects page 1. The code selects page 2 there: with the soft switches
  equal to \<^verbatim>\<open>SOFTSW_PAGE_2\<close> alone, \<^verbatim>\<open>PAGE2SEL\<close> is true and the line is read from
  \<^verbatim>\<open>hgr_p2\<close>, which is not \<^verbatim>\<open>hgr_p1\<close>.
\<close>

theorem page_2_set_80store_clear_selects_page_1_counterexample:
  "(0x8::32 word) AND SOFTSW_PAGE_2 \<noteq> 0 \<and> (0x8::32 word) AND SOFTSW_80STORE = 0 \<and>
   hires_page (PAGE2SEL 0x8) = hgr_p2 \<and> hires_page (PAGE2SEL 0x8) \<noteq> hgr_p1"
  by (simp add: PAGE2SEL_def SOFTSW_PAGE_2_def SOFTSW_80STORE_def hires_page_def hgr_p1_def hgr_p2_def)

text \<open>
  C5, amended. When the soft switches have the PAGE_2 bit set and the 80STORE bit clear,
  \<^verbatim>\<open>PAGE2SEL\<close> is true and \<^verbatim>\<open>render_hires_line\<close> reads the line from page 2
  (\<^verbatim>\<open>hgr_p2\<close>), not from page 1.
\<close>

theorem page_2_set_80store_clear_selects_page_2:
  "ss AND SOFTSW_PAGE_2 \<noteq> 0 \<Longrightarrow> ss AND SOFTSW_80STORE = 0 \<Longrightarrow>
   PAGE2SEL ss \<and> hires_page (PAGE2SEL ss) = hgr_p2 \<and> hgr_p2 \<noteq> hgr_p1 \<and>
   line_mem_of G (PAGE2SEL ss) line i =
     apple_memory G (hgr_p2 + unat (hires_line_to_mem_offset line) + i)"
  by (simp add: PAGE2SEL_iff line_mem_of_def hires_page_def hgr_p1_def hgr_p2_def)

theorem page_2_set_80store_clear_selects_page_2_witness:
  "(0xC::32 word) AND SOFTSW_PAGE_2 \<noteq> 0 \<and> (0xC::32 word) AND SOFTSW_80STORE = 0 \<and>
   PAGE2SEL 0xC \<and> hires_page (PAGE2SEL 0xC) = hgr_p2"
  using page_2_set_80store_clear_selects_page_2 [where ss = "0xC" and line = 0 and i = 0
      and G = "\<lparr>soft_switches = 0xC, mono_rendering = False, apple_memory = (\<lambda>a. 0)\<rparr>"]
  by (auto simp: SOFTSW_PAGE_2_def SOFTSW_80STORE_def)

text \<open>
  C6. \<^verbatim>\<open>PAGE2SEL\<close> holds exactly when the 80STORE bit is clear and the PAGE_2 bit is
  set: a conjunction of two soft-switch bits. The line is read from page 2 (\<^verbatim>\<open>hgr_p2\<close>)
  in that state and from page 1 (\<^verbatim>\<open>hgr_p1\<close>) in every other state. \<^verbatim>\<open>render_hires\<close>
  returns 192 scanlines, and the scanline of each line is \<^verbatim>\<open>render_hires_line\<close> on the
  page that this rule selects from the soft switches read for that line; the same holds
  for the 160 lines of \<^verbatim>\<open>render_mixed_hires\<close>.
\<close>

theorem PAGE2SEL_two_bit_conjunction:
  "(PAGE2SEL ss \<longleftrightarrow> ss AND SOFTSW_80STORE = 0 \<and> ss AND SOFTSW_PAGE_2 \<noteq> 0) \<and>
   line_mem_of G (PAGE2SEL ss) line i =
     apple_memory G
       ((if ss AND SOFTSW_80STORE = 0 \<and> ss AND SOFTSW_PAGE_2 \<noteq> 0 then hgr_p2 else hgr_p1) +
        unat (hires_line_to_mem_offset line) + i) \<and>
   (\<exists>sent.
      render_hires H Gs = Some sent \<and> length sent = 192 \<and>
      (\<forall>n < 192.
         render_hires_line H (Gs n)
           (soft_switches (Gs n) AND SOFTSW_80STORE = 0 \<and> soft_switches (Gs n) AND SOFTSW_PAGE_2 \<noteq> 0)
           (of_nat n) = Some (sent ! n))) \<and>
   (\<exists>sent.
      render_mixed_hires H Gs mixed_text = Some (sent @ mixed_text) \<and> length sent = 160 \<and>
      (\<forall>n < 160.
         render_hires_line H (Gs n)
           (soft_switches (Gs n) AND SOFTSW_80STORE = 0 \<and> soft_switches (Gs n) AND SOFTSW_PAGE_2 \<noteq> 0)
           (of_nat n) = Some (sent ! n)))"
proof -
  have a: "PAGE2SEL ss \<longleftrightarrow> ss AND SOFTSW_80STORE = 0 \<and> ss AND SOFTSW_PAGE_2 \<noteq> 0"
    by (rule PAGE2SEL_iff)
  have b: "line_mem_of G (PAGE2SEL ss) line i =
     apple_memory G
       ((if ss AND SOFTSW_80STORE = 0 \<and> ss AND SOFTSW_PAGE_2 \<noteq> 0 then hgr_p2 else hgr_p1) +
        unat (hires_line_to_mem_offset line) + i)"
    by (simp add: PAGE2SEL_iff line_mem_of_def hires_page_def)
  have c: "\<exists>sent.
      render_hires H Gs = Some sent \<and> length sent = 192 \<and>
      (\<forall>n < 192.
         render_hires_line H (Gs n)
           (soft_switches (Gs n) AND SOFTSW_80STORE = 0 \<and> soft_switches (Gs n) AND SOFTSW_PAGE_2 \<noteq> 0)
           (of_nat n) = Some (sent ! n))"
    using render_lines_sent [of H Gs 192] by (simp add: render_hires_def PAGE2SEL_iff)
  have d: "\<exists>sent.
      render_mixed_hires H Gs mixed_text = Some (sent @ mixed_text) \<and> length sent = 160 \<and>
      (\<forall>n < 160.
         render_hires_line H (Gs n)
           (soft_switches (Gs n) AND SOFTSW_80STORE = 0 \<and> soft_switches (Gs n) AND SOFTSW_PAGE_2 \<noteq> 0)
           (of_nat n) = Some (sent ! n))"
    using render_lines_sent [of H Gs 160] by (auto simp: render_mixed_hires_def PAGE2SEL_iff)
  from a b c d show ?thesis by (intro conjI)
qed

theorem PAGE2SEL_two_bit_conjunction_witness:
  "\<not> PAGE2SEL 0x108 \<and> PAGE2SEL 0x8 \<and> \<not> PAGE2SEL 0x100 \<and> \<not> PAGE2SEL 0 \<and>
   (\<exists>sent. render_hires
        \<lparr>hires_dot_patterns = (\<lambda>i. 0), hires_dot_patterns2 = (\<lambda>i. 0),
         hires_color_patterns = index_tables, TMDS_SYMBOL_0_0 = 0, TMDS_SYMBOL_255_0 = 1,
         TMDS_SYMBOL_0_255 = 2, TMDS_SYMBOL_255_255 = 3\<rparr>
        (\<lambda>n. \<lparr>soft_switches = 0x8, mono_rendering = False, apple_memory = (\<lambda>a. 0)\<rparr>) = Some sent \<and>
      length sent = 192)"
proof -
  let ?H = "\<lparr>hires_dot_patterns = (\<lambda>i. 0), hires_dot_patterns2 = (\<lambda>i. 0),
         hires_color_patterns = index_tables, TMDS_SYMBOL_0_0 = 0, TMDS_SYMBOL_255_0 = 1,
         TMDS_SYMBOL_0_255 = 2, TMDS_SYMBOL_255_255 = 3\<rparr>"
  let ?Gs = "\<lambda>n::nat. \<lparr>soft_switches = 0x8, mono_rendering = False, apple_memory = (\<lambda>a. 0)\<rparr>"
  let ?G = "\<lparr>soft_switches = 0x8, mono_rendering = False, apple_memory = (\<lambda>a. 0)\<rparr>"
  note t = PAGE2SEL_two_bit_conjunction
    [where H = ?H and Gs = ?Gs and G = ?G and line = 0 and i = 0 and mixed_text = "[]"]
  have "\<not> PAGE2SEL 0x108" "PAGE2SEL 0x8" "\<not> PAGE2SEL 0x100" "\<not> PAGE2SEL 0"
    using t [of "0x108", THEN conjunct1] t [of "0x8", THEN conjunct1]
      t [of "0x100", THEN conjunct1] t [of 0, THEN conjunct1]
    by (simp_all add: SOFTSW_80STORE_def SOFTSW_PAGE_2_def)
  moreover have "\<exists>sent. render_hires ?H ?Gs = Some sent \<and> length sent = 192"
    using t [of 0, THEN conjunct2, THEN conjunct2, THEN conjunct1] by blast
  ultimately show ?thesis by (intro conjI)
qed

text \<open>
  C7. For every line, the monochrome path returns. Every byte adds 14 to the dot count
  \<^verbatim>\<open>dotc\<close> and the drain loop takes them away 2 per stored triple, in 7 rounds, so after
  \<open>k\<close> bytes the count is back at 0 and \<open>7 * k\<close> triples are stored in each channel:
  280 triples for the 40 bytes (560 dots), with a count of 0 left. When every entry of
  \<^verbatim>\<open>hires_dot_patterns2\<close> fits in 14 bits, the accumulator \<^verbatim>\<open>dots\<close> itself is 0 as well.
\<close>

theorem mono_scanline_dots_balance:
  "(\<forall>k \<le> 40. \<exists>dots buf.
      mono_bytes mpats T line_mem [0..<k] (Some (0, 0, 0, empty_scanline)) = Some (0, 0, dots, buf) \<and>
      length (tmdsbuf_red buf) = 7 * k \<and> length (tmdsbuf_green buf) = 7 * k \<and>
      length (tmdsbuf_blue buf) = 7 * k \<and>
      ((\<forall>x. mpats x < 2 ^ 14) \<longrightarrow> dots = 0)) \<and>
   (\<exists>dots buf.
      mono_scanline mpats T line_mem = Some (0, 0, dots, buf) \<and>
      length (tmdsbuf_red buf) = 280 \<and> length (tmdsbuf_green buf) = 280 \<and>
      length (tmdsbuf_blue buf) = 280 \<and>
      ((\<forall>x. mpats x < 2 ^ 14) \<longrightarrow> dots = 0)) \<and>
   (\<forall>dots buf. \<exists>dots' buf'.
      mono_consume T (0 + 14) dots buf = Some (0, dots', buf') \<and>
      dots' = drop_bit 14 dots \<and>
      length (tmdsbuf_red buf') = length (tmdsbuf_red buf) + 7) \<and>
   (mono_rendering G \<longrightarrow>
      (\<exists>buf. render_hires_line H G p2 line = Some buf \<and>
         length (tmdsbuf_red buf) = 280 \<and> length (tmdsbuf_green buf) = 280 \<and>
         length (tmdsbuf_blue buf) = 280))"
proof -
  have prefix: "\<exists>dots buf.
      mono_bytes mpats T line_mem [0..<k] (Some (0, 0, 0, empty_scanline)) = Some (0, 0, dots, buf) \<and>
      length (tmdsbuf_red buf) = 7 * k \<and> length (tmdsbuf_green buf) = 7 * k \<and>
      length (tmdsbuf_blue buf) = 7 * k \<and>
      ((\<forall>x. mpats x < 2 ^ 14) \<longrightarrow> dots = 0)" for k
  proof -
    from mono_prefix_idle [of k mpats T line_mem]
    obtain dots buf where
      s: "mono_bytes mpats T line_mem [0..<k] (Some (0, 0, 0, empty_scanline)) = Some (0, 0, dots, buf)"
      and len: "length (tmdsbuf_red buf) = 7 * k" "length (tmdsbuf_green buf) = 7 * k"
        "length (tmdsbuf_blue buf) = 7 * k"
      by (rule mono_idle_SomeE)
    have "dots = 0" if "\<forall>x. mpats x < 2 ^ 14"
      using mono_prefix_flushed [of mpats T line_mem k] that s by simp
    with s len show ?thesis by blast
  qed
  have drain: "\<exists>dots' buf'.
      mono_consume T (0 + 14) dots buf = Some (0, dots', buf') \<and>
      dots' = drop_bit 14 dots \<and>
      length (tmdsbuf_red buf') = length (tmdsbuf_red buf) + 7" for dots buf
  proof -
    obtain d' b' where r: "mono_drain 7 T dots buf = (d', b')"
      by (cases "mono_drain 7 T dots buf")
    have "d' = drop_bit 14 dots"
      using mono_drain_window [of 7 T dots buf] r by simp
    moreover have "length (tmdsbuf_red b') = length (tmdsbuf_red buf) + 7"
      using mono_drain_red [of 7 T dots buf] r by simp
    ultimately show ?thesis
      by (simp add: mono_consume_14 r)
  qed
  from prefix [of 40] have line: "\<exists>dots buf.
      mono_scanline mpats T line_mem = Some (0, 0, dots, buf) \<and>
      length (tmdsbuf_red buf) = 280 \<and> length (tmdsbuf_green buf) = 280 \<and>
      length (tmdsbuf_blue buf) = 280 \<and>
      ((\<forall>x. mpats x < 2 ^ 14) \<longrightarrow> dots = 0)"
    by (simp add: mono_scanline_def)
  have whole: "mono_rendering G \<longrightarrow>
      (\<exists>buf. render_hires_line H G p2 line = Some buf \<and>
         length (tmdsbuf_red buf) = 280 \<and> length (tmdsbuf_green buf) = 280 \<and>
         length (tmdsbuf_blue buf) = 280)"
  proof
    assume mono: "mono_rendering G"
    let ?p = "hires_dot_patterns2 H" and ?T = "hires_mono_patterns H"
      and ?lm = "line_mem_of G p2 line"
    from mono_prefix_idle [of 40 ?p ?T ?lm]
    obtain dots buf where
      s: "mono_bytes ?p ?T ?lm [0..<40] (Some (0, 0, 0, empty_scanline)) = Some (0, 0, dots, buf)"
      and len: "length (tmdsbuf_red buf) = 7 * 40" "length (tmdsbuf_green buf) = 7 * 40"
        "length (tmdsbuf_blue buf) = 7 * 40"
      by (rule mono_idle_SomeE)
    have "render_hires_line H G p2 line = Some buf"
      using mono s by (simp add: render_hires_line_def mono_scanline_def Let_def)
    with len show "\<exists>buf. render_hires_line H G p2 line = Some buf \<and>
         length (tmdsbuf_red buf) = 280 \<and> length (tmdsbuf_green buf) = 280 \<and>
         length (tmdsbuf_blue buf) = 280"
      by simp
  qed
  from prefix have prefix': "\<forall>k \<le> 40. \<exists>dots buf.
      mono_bytes mpats T line_mem [0..<k] (Some (0, 0, 0, empty_scanline)) = Some (0, 0, dots, buf) \<and>
      length (tmdsbuf_red buf) = 7 * k \<and> length (tmdsbuf_green buf) = 7 * k \<and>
      length (tmdsbuf_blue buf) = 7 * k \<and>
      ((\<forall>x. mpats x < 2 ^ 14) \<longrightarrow> dots = 0)"
    by blast
  from drain have drain': "\<forall>dots buf. \<exists>dots' buf'.
      mono_consume T (0 + 14) dots buf = Some (0, dots', buf') \<and>
      dots' = drop_bit 14 dots \<and>
      length (tmdsbuf_red buf') = length (tmdsbuf_red buf) + 7"
    by blast
  show ?thesis
    by (intro conjI prefix' line drain' whole)
qed

theorem mono_scanline_dots_balance_witness:
  "(0x3fff :: 32 word) < 2 ^ 14 \<and>
   mono_rendering \<lparr>soft_switches = 0x8, mono_rendering = True, apple_memory = (\<lambda>a. 0x55)\<rparr> \<and>
   (\<exists>dots buf. mono_scanline (\<lambda>i. 0x3fff) index_tables (\<lambda>i. 0x55) = Some (0, 0, dots, buf) \<and>
      length (tmdsbuf_red buf) = 280 \<and> dots = 0) \<and>
   (\<exists>buf.
      render_hires_line
        \<lparr>hires_dot_patterns = (\<lambda>i. 0), hires_dot_patterns2 = (\<lambda>i. 0x3fff),
         hires_color_patterns = index_tables, TMDS_SYMBOL_0_0 = 0, TMDS_SYMBOL_255_0 = 1,
         TMDS_SYMBOL_0_255 = 2, TMDS_SYMBOL_255_255 = 3\<rparr>
        \<lparr>soft_switches = 0x8, mono_rendering = True, apple_memory = (\<lambda>a. 0x55)\<rparr> True 191 = Some buf \<and>
      length (tmdsbuf_red buf) = 280)"
  using mono_scanline_dots_balance
    [where mpats = "\<lambda>i. 0x3fff" and T = index_tables and line_mem = "\<lambda>i. 0x55"
       and G = "\<lparr>soft_switches = 0x8, mono_rendering = True, apple_memory = (\<lambda>a. 0x55)\<rparr>"
       and H = "\<lparr>hires_dot_patterns = (\<lambda>i. 0), hires_dot_patterns2 = (\<lambda>i. 0x3fff),
         hires_color_patterns = index_tables, TMDS_SYMBOL_0_0 = 0, TMDS_SYMBOL_255_0 = 1,
         TMDS_SYMBOL_0_255 = 2, TMDS_SYMBOL_255_255 = 3\<rparr>"
       and ?p2.0 = True and line = 191]
  by auto

text \<open>
  C8. For every line and every content of the dot pattern tables, each of the 280 lookup
  indices of the colour path, \<^verbatim>\<open>oddness | ((dots >> 24) & 0xff)\<close>, is below 512, and each
  of the 280 lookup indices of the monochrome path, \<^verbatim>\<open>dots & 0x3\<close>, is below 4, which is
  the length of each of the three monochrome tables of the source. The stored symbols are
  the table entries at these indices.
\<close>

theorem lookup_indices_in_table_domain:
  "length (color_indices pats line_mem) = 280 \<and>
   (\<forall>k < 280. color_indices pats line_mem ! k < 512) \<and>
   (case color_scanline pats T line_mem of
      (oddness, dots, buf) \<Rightarrow>
        tmdsbuf_red buf = map (patterns_red T) (color_indices pats line_mem) \<and>
        tmdsbuf_green buf = map (patterns_green T) (color_indices pats line_mem) \<and>
        tmdsbuf_blue buf = map (patterns_blue T) (color_indices pats line_mem)) \<and>
   length (mono_indices mpats line_mem) = 280 \<and>
   (\<forall>k < 280. mono_indices mpats line_mem ! k < 4 \<and>
      unat (mono_indices mpats line_mem ! k) < length (hires_mono_patterns_red H) \<and>
      unat (mono_indices mpats line_mem ! k) < length (hires_mono_patterns_green H) \<and>
      unat (mono_indices mpats line_mem ! k) < length (hires_mono_patterns_blue H)) \<and>
   (\<exists>lastmsb dotc dots buf.
      mono_scanline mpats T line_mem = Some (lastmsb, dotc, dots, buf) \<and>
      tmdsbuf_red buf = map (patterns_red T) (mono_indices mpats line_mem) \<and>
      tmdsbuf_green buf = map (patterns_green T) (mono_indices mpats line_mem) \<and>
      tmdsbuf_blue buf = map (patterns_blue T) (mono_indices mpats line_mem))"
proof -
  obtain od d b where s: "color_scanline pats index_tables line_mem = (od, d, b)"
    by (cases "color_scanline pats index_tables line_mem")
  have cs: "color_scanline pats T line_mem = (od, d, map_scanline T b)"
    by (rule color_scanline_map [OF s])
  note ci = color_indices_inv [OF s]
  obtain mdots mbuf where m: "mono_scanline mpats index_tables line_mem = Some (0, 0, mdots, mbuf)"
    and rgb: "tmdsbuf_red mbuf = mono_indices mpats line_mem"
      "tmdsbuf_green mbuf = mono_indices mpats line_mem"
      "tmdsbuf_blue mbuf = mono_indices mpats line_mem"
    and len: "length (mono_indices mpats line_mem) = 280"
    and lt: "\<forall>k < 280. mono_indices mpats line_mem ! k < 4"
    by (rule mono_indices_inv)
  have ms: "mono_scanline mpats T line_mem = Some (0, 0, mdots, map_scanline T mbuf)"
    by (rule mono_scanline_map [OF m])
  have u: "unat w < Suc (Suc (Suc (Suc 0)))" if "w < 4" for w :: "32 word"
    using that by (simp add: word_less_nat_alt)
  have c: "length (color_indices pats line_mem) = 280 \<and>
     (\<forall>k < 280. color_indices pats line_mem ! k < 512) \<and>
     (case color_scanline pats T line_mem of
      (oddness, dots, buf) \<Rightarrow>
        tmdsbuf_red buf = map (patterns_red T) (color_indices pats line_mem) \<and>
        tmdsbuf_green buf = map (patterns_green T) (color_indices pats line_mem) \<and>
        tmdsbuf_blue buf = map (patterns_blue T) (color_indices pats line_mem))"
    using ci by (simp add: cs map_scanline_def)
  have mi: "\<forall>k < 280. mono_indices mpats line_mem ! k < 4 \<and>
      unat (mono_indices mpats line_mem ! k) < length (hires_mono_patterns_red H) \<and>
      unat (mono_indices mpats line_mem ! k) < length (hires_mono_patterns_green H) \<and>
      unat (mono_indices mpats line_mem ! k) < length (hires_mono_patterns_blue H)"
    using lt u
    by (auto simp: hires_mono_patterns_red_def hires_mono_patterns_green_def
          hires_mono_patterns_blue_def)
  have mm: "\<exists>lastmsb dotc dots buf.
      mono_scanline mpats T line_mem = Some (lastmsb, dotc, dots, buf) \<and>
      tmdsbuf_red buf = map (patterns_red T) (mono_indices mpats line_mem) \<and>
      tmdsbuf_green buf = map (patterns_green T) (mono_indices mpats line_mem) \<and>
      tmdsbuf_blue buf = map (patterns_blue T) (mono_indices mpats line_mem)"
    using ms rgb by (simp add: map_scanline_def)
  from c len mi mm show ?thesis by (intro conjI) auto
qed

theorem lookup_indices_in_table_domain_witness:
  "color_indices (\<lambda>i. 0x3fff) (\<lambda>i. 0xff) ! 279 < 512 \<and>
   mono_indices (\<lambda>i. 0x3fff) (\<lambda>i. 0xff) ! 279 < 4"
  using lookup_indices_in_table_domain [where pats = "\<lambda>i. 0x3fff" and mpats = "\<lambda>i. 0x3fff" and T = index_tables
      and line_mem = "\<lambda>i. 0xff"]
  by simp

text \<open>
  C9. If the stored configuration is invalid, that is its magic word is not
  \<^verbatim>\<open>CFG_MAGIC_WORD_VALUE\<close> or its recorded size exceeds \<^verbatim>\<open>FLASH_SECTOR_SIZE\<close>, then
  \<^verbatim>\<open>config_load\<close> does what \<^verbatim>\<open>config_load_defaults\<close> does, after the list of invalid fonts
  has been taken from the font directory (a structure of its own, not a field of the
  stored configuration). Every setting has its built-in default, the character ROM is
  left as it was, and the result is the same for every invalid stored configuration: no
  field of it is applied.
\<close>

theorem config_load_invalid_loads_defaults:
  assumes "config_t.magic_word cfg \<noteq> CFG_MAGIC_WORD_VALUE \<or>
           ucast (size_cfg cfg) > FLASH_SECTOR_SIZE"
  shows "config_load h cfg font_directory g =
           config_load_defaults h
             (if fontdir_t.magic_word font_directory = FONT_MAGIC_WORD_VALUE
              then g\<lparr>invalid_fonts := fontdir_t.invalid_fonts font_directory\<rparr> else g) \<and>
         config_globals.color_mode (config_load h cfg font_directory g) = COLOR_MODE_BW h \<and>
         cfg_machine (config_load h cfg font_directory g) = MACHINE_AUTO h \<and>
         current_machine (config_load h cfg font_directory g) = detected_machine g \<and>
         config_globals.language_switch_enabled (config_load h cfg font_directory g) = False \<and>
         config_globals.enhanced_font_enabled (config_load h cfg font_directory g) = True \<and>
         cfg_local_charset (config_load h cfg font_directory g) = DEFAULT_LOCAL_CHARSET h \<and>
         cfg_alt_charset (config_load h cfg font_directory g) = DEFAULT_ALT_CHARSET h \<and>
         reload_charsets (config_load h cfg font_directory g) = 3 \<and>
         character_rom (config_load h cfg font_directory g) = character_rom g \<and>
         internal_flags (config_load h cfg font_directory g) AND IFLAGS_SCANLINEEMU = IFLAGS_SCANLINEEMU \<and>
         internal_flags (config_load h cfg font_directory g) AND IFLAGS_DEBUG_LINES = 0 \<and>
         internal_flags (config_load h cfg font_directory g) AND IFLAGS_FORCED_MONO = 0 \<and>
         internal_flags (config_load h cfg font_directory g) AND IFLAGS_VIDEO7 = 0 \<and>
         internal_flags (config_load h cfg font_directory g) AND IFLAGS_TEST = 0 \<and>
         (\<forall>cfg'. config_t.magic_word cfg' \<noteq> CFG_MAGIC_WORD_VALUE \<or>
                 ucast (size_cfg cfg') > FLASH_SECTOR_SIZE \<longrightarrow>
            config_load h cfg' font_directory g = config_load h cfg font_directory g)"
proof -
  let ?g0 = "if fontdir_t.magic_word font_directory = FONT_MAGIC_WORD_VALUE
              then g\<lparr>invalid_fonts := fontdir_t.invalid_fonts font_directory\<rparr> else g"
  have eq: "config_load h cfg font_directory g = config_load_defaults h ?g0"
    using assms unfolding config_load_def Let_def by (simp only: if_True)
  have g0: "detected_machine ?g0 = detected_machine g" "character_rom ?g0 = character_rom g"
    by simp_all
  have same: "config_load h cfg' font_directory g = config_load_defaults h ?g0"
    if "config_t.magic_word cfg' \<noteq> CFG_MAGIC_WORD_VALUE \<or> ucast (size_cfg cfg') > FLASH_SECTOR_SIZE"
    for cfg'
    using that unfolding config_load_def Let_def by (simp only: if_True)
  show ?thesis
    unfolding eq config_load_defaults_fields config_load_defaults_flags g0 using same by simp
qed

theorem config_load_invalid_loads_defaults_witness:
  "(ucast (0x2000 :: 16 word) :: 32 word) > FLASH_SECTOR_SIZE \<and>
   config_globals.color_mode
     (config_load
        \<lparr>MACHINE_AUTO = 0xff, MACHINE_II = 0, MACHINE_IIE = 1, MACHINE_IIGS = 2,
         MACHINE_AGAT7 = 3, MACHINE_AGAT9 = 4, MACHINE_BASIS = 5, MACHINE_PRAVETZ = 6,
         MACHINE_MAX_CFG = 6, COLOR_MODE_BW = 0, DEFAULT_LOCAL_CHARSET = 0, DEFAULT_ALT_CHARSET = 0,
         MAX_FONT_COUNT = 32, CUSTOM_FONT_COUNT = 16, character_roms = (\<lambda>n. []),
         memcpy32 = (\<lambda>dst doff src soff n. dst)\<rparr>
        \<lparr>config_t.magic_word = 0x32495644, size_cfg = 0x2000, scanline_emulation = 0,
         forced_monochrome = 1, config_t.color_mode = 2, machine_type = 1, local_charset = 3,
         alt_charset = 4, config_t.language_switch_enabled = 1, config_t.enhanced_font_enabled = 0,
         video7_enabled = 1, debug_lines_enabled = 1, test_mode_enabled = 1\<rparr>
        \<lparr>fontdir_t.magic_word = 0, fontdir_t.invalid_fonts = 0\<rparr>
        \<lparr>internal_flags = 0, detected_machine = 0, cfg_machine = 1, current_machine = 1,
         config_globals.language_switch_enabled = True, config_globals.enhanced_font_enabled = False,
         cfg_local_charset = 9, cfg_alt_charset = 9, reload_charsets = 0,
         config_globals.invalid_fonts = 0xffffffff, config_globals.color_mode = 1,
         character_rom = []\<rparr>) = 0"
proof -
  let ?h = "\<lparr>MACHINE_AUTO = 0xff, MACHINE_II = 0, MACHINE_IIE = 1, MACHINE_IIGS = 2,
         MACHINE_AGAT7 = 3, MACHINE_AGAT9 = 4, MACHINE_BASIS = 5, MACHINE_PRAVETZ = 6,
         MACHINE_MAX_CFG = 6, COLOR_MODE_BW = 0, DEFAULT_LOCAL_CHARSET = 0, DEFAULT_ALT_CHARSET = 0,
         MAX_FONT_COUNT = 32, CUSTOM_FONT_COUNT = 16, character_roms = (\<lambda>n. []),
         memcpy32 = (\<lambda>dst doff src soff n. dst)\<rparr>"
  let ?cfg = "\<lparr>config_t.magic_word = 0x32495644, size_cfg = 0x2000, scanline_emulation = 0,
         forced_monochrome = 1, config_t.color_mode = 2, machine_type = 1, local_charset = 3,
         alt_charset = 4, config_t.language_switch_enabled = 1, config_t.enhanced_font_enabled = 0,
         video7_enabled = 1, debug_lines_enabled = 1, test_mode_enabled = 1\<rparr>"
  let ?fd = "\<lparr>fontdir_t.magic_word = 0, fontdir_t.invalid_fonts = 0\<rparr>"
  let ?g = "\<lparr>internal_flags = 0, detected_machine = 0, cfg_machine = 1, current_machine = 1,
         config_globals.language_switch_enabled = True, config_globals.enhanced_font_enabled = False,
         cfg_local_charset = 9, cfg_alt_charset = 9, reload_charsets = 0,
         config_globals.invalid_fonts = 0xffffffff, config_globals.color_mode = 1,
         character_rom = []\<rparr>"
  have big: "(ucast (0x2000 :: 16 word) :: 32 word) > FLASH_SECTOR_SIZE"
    by (simp add: FLASH_SECTOR_SIZE_def)
  then have invalid: "config_t.magic_word ?cfg \<noteq> CFG_MAGIC_WORD_VALUE \<or>
      ucast (size_cfg ?cfg) > FLASH_SECTOR_SIZE"
    by simp
  from config_load_invalid_loads_defaults [OF invalid, of ?h ?fd ?g, THEN conjunct2, THEN conjunct1]
  have "config_globals.color_mode (config_load ?h ?cfg ?fd ?g) = 0"
    by simp
  with big show ?thesis by (intro conjI)
qed

text \<open>
  C10. In the monochrome path the state before the iteration for byte \<open>k\<close> (\<open>k < 40\<close>)
  has \<^verbatim>\<open>dotc = 0\<close> and \<^verbatim>\<open>lastmsb = 0\<close>. The table index
  \<^verbatim>\<open>lastmsb | line_mem[k]\<close> is therefore the byte itself, below 256, and the iteration
  leaves \<^verbatim>\<open>lastmsb\<close> at 0 whatever bit 6 of the byte is: the injection
  \<^verbatim>\<open>(byte & 0x40) << 2\<close> is never applied.
\<close>

theorem mono_lastmsb_always_zero:
  "k < 40 \<Longrightarrow>
   \<exists>lastmsb dotc dots buf.
     mono_bytes mpats T line_mem [0..<k] (Some (0, 0, 0, empty_scanline)) =
       Some (lastmsb, dotc, dots, buf) \<and>
     dotc = 0 \<and> lastmsb = 0 \<and>
     lastmsb OR ucast (line_mem k) = (ucast (line_mem k) :: 32 word) \<and>
     (ucast (line_mem k) :: 32 word) < 256 \<and>
     mono_bytes mpats T line_mem [0..<Suc k] (Some (0, 0, 0, empty_scanline)) =
       mono_byte mpats T line_mem k (lastmsb, dotc, dots, buf) \<and>
     mono_byte mpats T line_mem k (lastmsb, dotc, dots, buf) =
       (case mono_consume T 14 (dots OR mpats (ucast (line_mem k))) buf of
          None \<Rightarrow> None
        | Some (dotc', dots', buf') \<Rightarrow> Some (0, dotc', dots', buf'))"
proof -
  from mono_prefix_idle [of k mpats T line_mem]
  obtain dots buf where
    s: "mono_bytes mpats T line_mem [0..<k] (Some (0, 0, 0, empty_scanline)) = Some (0, 0, dots, buf)"
    by (rule mono_idle_SomeE)
  have step: "mono_bytes mpats T line_mem [0..<Suc k] (Some (0, 0, 0, empty_scanline)) =
       mono_byte mpats T line_mem k (0, 0, dots, buf)"
    using s by (simp add: mono_bytes_def)
  have body: "mono_byte mpats T line_mem k (0, 0, dots, buf) =
       (case mono_consume T 14 (dots OR mpats (ucast (line_mem k))) buf of
          None \<Rightarrow> None
        | Some (dotc', dots', buf') \<Rightarrow> Some (0, dotc', dots', buf'))"
    by simp
  from s step body ucast_byte_lt [of "line_mem k"] show ?thesis by simp
qed

theorem mono_lastmsb_always_zero_witness:
  "(39::nat) < 40 \<and>
   (\<exists>lastmsb dotc dots buf.
      mono_bytes (\<lambda>i. 0) index_tables (\<lambda>i. 0x40) [0..<39] (Some (0, 0, 0, empty_scanline)) =
        Some (lastmsb, dotc, dots, buf) \<and>
      dotc = 0 \<and> lastmsb = 0 \<and> lastmsb OR ucast (0x40 :: 8 word) = (0x40 :: 32 word))"
  using mono_lastmsb_always_zero [where k = 39 and mpats = "\<lambda>i. 0" and T = index_tables and line_mem = "\<lambda>i. 0x40"]
  by auto

end
